theory Spec2Isabelle
  imports Complex_Main
begin

section \<open>Value iteration for the optimal lockdown of a two-group epidemic\<close>

text \<open>
  The notebook computes with \<^verbatim>\<open>numpy\<close> arrays of IEEE doubles.  The embedding reads a
  double as a real number, an array of length two as a pair, the 2x2 state
  \<^verbatim>\<open>[[S_y, S_o], [I_y, I_o]]\<close> as a pair of pairs and a four-dimensional array as a function
  on index tuples.  Rounding is not modelled; the one place where the non-finite doubles
  matter, the division by \<^verbatim>\<open>1 - D_new\<close> in \<^verbatim>\<open>dynamics\<close>, is modelled with them.
\<close>

subsection \<open>Arrays of length two\<close>

type_synonym vec2 = "real \<times> real"
type_synonym state = "vec2 \<times> vec2"

definition vadd :: "vec2 \<Rightarrow> vec2 \<Rightarrow> vec2" where
  "vadd a b = (fst a + fst b, snd a + snd b)"

definition vsub :: "vec2 \<Rightarrow> vec2 \<Rightarrow> vec2" where
  "vsub a b = (fst a - fst b, snd a - snd b)"

definition vmul :: "vec2 \<Rightarrow> vec2 \<Rightarrow> vec2" where
  "vmul a b = (fst a * fst b, snd a * snd b)"

definition vneg :: "vec2 \<Rightarrow> vec2" where
  "vneg a = (- fst a, - snd a)"

definition vexp :: "vec2 \<Rightarrow> vec2" where
  "vexp a = (exp (fst a), exp (snd a))"

text \<open>Broadcasting a scalar against an array.\<close>

definition smul :: "real \<Rightarrow> vec2 \<Rightarrow> vec2" where
  "smul s a = (s * fst a, s * snd a)"

definition sadd :: "real \<Rightarrow> vec2 \<Rightarrow> vec2" where
  "sadd s a = (s + fst a, s + snd a)"

definition ssub :: "real \<Rightarrow> vec2 \<Rightarrow> vec2" where
  "ssub s a = (s - fst a, s - snd a)"

definition sdiv :: "vec2 \<Rightarrow> real \<Rightarrow> vec2" where
  "sdiv a s = (fst a / s, snd a / s)"

definition np_sum :: "vec2 \<Rightarrow> real" where
  "np_sum a = fst a + snd a"

definition np_dot :: "vec2 \<times> vec2 \<Rightarrow> vec2 \<Rightarrow> vec2" where
  "np_dot m x = (fst (fst m) * fst x + snd (fst m) * snd x,
                 fst (snd m) * fst x + snd (snd m) * snd x)"

subsection \<open>Parameter assignments\<close>

text \<open>
  The notebook's globals.  The one-letter globals \<^verbatim>\<open>P\<close>, \<^verbatim>\<open>w\<close>, \<^verbatim>\<open>p\<close>, \<^verbatim>\<open>F\<close> and \<^verbatim>\<open>M\<close>
  carry the suffix \<open>_par\<close>, so that they do not capture the variables of later statements.
\<close>

definition dt :: real where "dt = 1"
definition gamma :: real where "gamma = 1 / 18"
definition theta :: real where "theta = 75 / 100"
definition L_max :: vec2 where "L_max = (7 / 10, 1)"
definition M_par :: nat where "M_par = 2"
definition p_par :: real where "p_par = 1"
definition herd_threshold :: real where "herd_threshold = 6 / 10"
definition P_par :: vec2 where "P_par = (818 / 1000, 182 / 1000)"
definition w_par :: vec2 where "w_par = (1, 0)"
definition career :: vec2 where "career = (20 * 365, 0)"
definition ir :: real where "ir = (1 / 100000) / 365"
definition chi :: vec2 where "chi = (10, 10)"
definition ICU_max :: real where "ICU_max = 3 / 10000"
definition iota :: vec2 where "iota = (2586 / 100000, 74 / 1000)"
definition nu :: real where "nu = (667 / 1000) / 365"
definition beta_0 :: real where "beta_0 = 2 / 10"
definition rho_0 :: real where "rho_0 = 75 / 100"
definition alpha_I :: real where "alpha_I = 1"
definition wfh :: real where "wfh = 40 / 100"
definition alpha_L :: real where "alpha_L = 1 / 100000"
definition alpha_E :: real where "alpha_E = 42 / 100"
definition eta :: real where "eta = 10000"
definition F_par :: real where "F_par = 1"

subsection \<open>Helper functions of the epidemic model\<close>

definition indir :: "vec2 \<Rightarrow> vec2" where
  "indir L_curr = smul alpha_L L_curr"

definition empl :: "vec2 \<Rightarrow> vec2" where
  "empl L_e = vmul (smul alpha_E w_par) L_e"

definition ICU :: "vec2 \<Rightarrow> real" where
  "ICU I_i = (let ICU_curr = np_sum (vmul I_i iota) in max 0 ((ICU_curr - ICU_max) * eta))"

definition phi :: "vec2 \<Rightarrow> vec2" where
  "phi I_p =
     (let I_total = np_sum I_p;
          a = (634 / 1000000 * gamma, 845 / 100000 * gamma);
          b = (845 / 100000 * gamma, 1127 / 10000 * gamma)
      in vadd a (smul I_total b))"

definition betaBSIR :: "vec2 \<Rightarrow> vec2 \<times> vec2" where
  "betaBSIR I_b =
     (let beta = beta_0 * exp (- alpha_I * np_sum I_b);
          rho = ((1, rho_0), (rho_0, 1))
      in (smul beta (fst rho), smul beta (snd rho)))"

subsection \<open>Social cost\<close>

text \<open>
  In the source the line \<^verbatim>\<open>+ ICU(I_c)\<close> follows the closing parenthesis of the assignment
  to \<^verbatim>\<open>cost\<close>: it is an expression statement of its own, evaluated and dropped.  The
  binding \<open>unused\<close> stands for it.  The four summands inside \<^verbatim>\<open>np.sum\<close> are defined
  one by one, under the names their comments give them.
\<close>

definition lost_salary :: "vec2 \<Rightarrow> state \<Rightarrow> vec2" where
  "lost_salary L_c st =
     (let S_c = fst st; I_c = snd st; R_c = vsub P_par (vadd S_c I_c)
      in vmul (smul (1 - wfh) (vmul w_par L_c)) (vadd (vadd S_c I_c) (smul p_par R_c)))"

definition covid_deaths :: "state \<Rightarrow> vec2" where
  "covid_deaths st =
     (let I_c = snd st
      in vmul (vmul (vmul (sdiv (vadd chi w_par) ir) (ssub 1 (vexp (smul (- ir) career))))
                (phi I_c)) I_c)"

definition non_covid_deaths :: "vec2 \<Rightarrow> state \<Rightarrow> vec2" where
  "non_covid_deaths L_c st =
     (let S_c = fst st; I_c = snd st; R_c = vsub P_par (vadd S_c I_c)
      in vmul (vmul (vmul (sdiv w_par ir) (ssub 1 (vexp (smul (- ir) career)))) (indir L_c))
           (vadd (sadd F_par S_c) R_c))"

definition future_unemployment :: "vec2 \<Rightarrow> state \<Rightarrow> vec2" where
  "future_unemployment L_c st =
     (let S_c = fst st; I_c = snd st; R_c = vsub P_par (vadd S_c I_c)
      in vmul (empl L_c) (vadd S_c R_c))"

definition cost :: "vec2 \<Rightarrow> state \<Rightarrow> real" where
  "cost L_c st =
     (let S_c = fst st; I_c = snd st; R_c = vsub P_par (vadd S_c I_c)
      in if np_sum I_c = 0 then 0
         else (let cost = np_sum (vadd (vadd (vadd (lost_salary L_c st) (covid_deaths st))
                                     (non_covid_deaths L_c st))
                               (future_unemployment L_c st));
                   unused = ICU I_c
               in cost))"

subsection \<open>SIR dynamics\<close>

text \<open>
  \<^verbatim>\<open>dynamics\<close> divides by \<^verbatim>\<open>1 - D_new\<close>, where \<^verbatim>\<open>D_new\<close> has been clipped into \<open>[0, 1]\<close>.
  \<^verbatim>\<open>numpy\<close> does not raise on a zero divisor: the quotient is an infinity or, for \<open>0 / 0\<close>,
  a NaN, and \<^verbatim>\<open>np.minimum\<close> and \<^verbatim>\<open>np.maximum\<close> hand a NaN on.  The divisor is never negative,
  so a zero divisor is the positive zero and the sign of the quotient is that of the
  numerator.
\<close>

datatype npfloat = Fin real | PosInf | NegInf | NaN

type_synonym npvec2 = "npfloat \<times> npfloat"

definition np_divide :: "real \<Rightarrow> real \<Rightarrow> npfloat" where
  "np_divide x d =
     (if d \<noteq> 0 then Fin (x / d)
      else if 0 < x then PosInf
      else if x < 0 then NegInf
      else NaN)"

fun np_minimum :: "npfloat \<Rightarrow> real \<Rightarrow> npfloat" where
  "np_minimum (Fin x) c = Fin (min x c)"
| "np_minimum PosInf c = Fin c"
| "np_minimum NegInf c = NegInf"
| "np_minimum NaN c = NaN"

fun np_maximum :: "npfloat \<Rightarrow> real \<Rightarrow> npfloat" where
  "np_maximum (Fin x) c = Fin (max x c)"
| "np_maximum PosInf c = PosInf"
| "np_maximum NegInf c = Fin c"
| "np_maximum NaN c = NaN"

definition vdivide :: "vec2 \<Rightarrow> vec2 \<Rightarrow> npvec2" where
  "vdivide a b = (np_divide (fst a) (fst b), np_divide (snd a) (snd b))"

definition vminimum :: "npvec2 \<Rightarrow> real \<Rightarrow> npvec2" where
  "vminimum a c = (np_minimum (fst a) c, np_minimum (snd a) c)"

definition vmaximum :: "npvec2 \<Rightarrow> real \<Rightarrow> npvec2" where
  "vmaximum a c = (np_maximum (fst a) c, np_maximum (snd a) c)"

text \<open>\<^verbatim>\<open>np.sum(state, axis = 0)\<close>: the column sums of the 2x2 state, one per group.\<close>

definition np_sum_axis0 :: "state \<Rightarrow> vec2" where
  "np_sum_axis0 st = vadd (fst st) (snd st)"

text \<open>\<^verbatim>\<open>np.sum(state)\<close>: the sum of all four entries.\<close>

definition np_sum_all :: "state \<Rightarrow> real" where
  "np_sum_all st = np_sum (fst st) + np_sum (snd st)"

definition dynamics :: "vec2 \<Rightarrow> state \<Rightarrow> npvec2 \<times> npvec2 \<times> npvec2 \<times> vec2" where
  "dynamics L_d st =
     (let R_d = vsub P_par (np_sum_axis0 st);
          S_d = fst st;
          I_d = snd st;
          beta = betaBSIR I_d;
          deathRate = phi I_d;
          indirDeath = indir L_d;
          recoveryRate = vsub (smul gamma (1, 1)) deathRate;
          sum_I = np_dot beta (vmul (ssub 1 (smul theta L_d)) I_d);
          dI = vsub (vmul (vmul sum_I (ssub 1 (smul theta L_d))) S_d) (smul gamma I_d);
          dS = vsub (vsub (vneg dI) (smul gamma I_d)) (vmul indirDeath S_d);
          dR = vsub (vmul recoveryRate I_d) (vmul indirDeath R_d);
          dD = vadd (vmul deathRate I_d) (vmul indirDeath (vadd S_d R_d));
          D_new = smul dt dD;
          D_new = (min (fst D_new) 1, min (snd D_new) 1);
          D_new = (max (fst D_new) 0, max (snd D_new) 0);
          S_new = vdivide (vadd S_d (smul dt dS)) (ssub 1 D_new);
          S_new = vminimum S_new 1;
          S_new = vmaximum S_new (1 / 10000 + 1 / 100000);
          I_new = vdivide (vadd I_d (smul dt dI)) (ssub 1 D_new);
          I_new = vminimum I_new (1 / 2);
          I_new = vmaximum I_new (1 / 10000 + 1 / 100000);
          R_new = vdivide (vadd R_d (smul dt dR)) (ssub 1 D_new);
          R_new = vminimum R_new 1;
          R_new = vmaximum R_new (1 / 10000 + 1 / 100000)
      in (S_new, I_new, R_new, D_new))"

subsection \<open>Errors, grids and arrays\<close>

text \<open>
  The exceptions the modelled code can raise.  \<open>ValueError_samples\<close> is \<^verbatim>\<open>np.linspace\<close>
  refusing a negative number of samples, \<open>ValueError_out_of_bounds\<close> is the interpolator
  refusing a query outside the grid (the error the trajectory cell catches),
  \<open>ValueError_zero_size\<close> is \<^verbatim>\<open>np.max\<close> of an empty array, \<open>UnboundLocalError\<close> is the
  read of a local variable that was never assigned.  \<open>Optimizer_error\<close> stands for any
  exception of the optimizer's own.  \<open>Not_modelled\<close> marks an interpolation on an axis of
  fewer than two points, where the library divides by a zero cell width; no sweep over a
  grid that \<open>Model_init\<close> builds reaches it.
\<close>

datatype py_error =
    ValueError_samples
  | ValueError_out_of_bounds
  | ValueError_zero_size
  | UnboundLocalError
  | ZeroDivisionError
  | Optimizer_error
  | Not_modelled

text \<open>
  \<^verbatim>\<open>np.linspace(start, stop, num)\<close>: \<open>num\<close> evenly spaced samples with both ends included;
  the last sample is set to \<open>stop\<close> itself when there is more than one.
\<close>

definition linspace :: "real \<Rightarrow> real \<Rightarrow> int \<Rightarrow> py_error + real list" where
  "linspace start stop num =
     (if num < 0 then Inl ValueError_samples
      else (let n = nat num;
                step = (stop - start) / real (n - 1);
                y = map (\<lambda>i. real i * step + start) [0..<n]
            in Inr (if 1 < n then y[n - 1 := stop] else y)))"

type_synonym cell = "nat \<times> nat \<times> nat \<times> nat"
type_synonym value_array = "cell \<Rightarrow> real"
type_synonym policy_array = "cell \<Rightarrow> vec2"

subsection \<open>The interpolator\<close>

text \<open>
  \<^verbatim>\<open>RegularGridInterpolator(points, values, method = 'linear')\<close> with its default
  \<^verbatim>\<open>bounds_error = True\<close>, called at one query point.  The call first checks on every axis
  that the coordinate lies between the first and the last grid point (a comparison that a
  NaN fails), then finds per axis the cell index \<^verbatim>\<open>searchsorted(grid, x) - 1\<close> clipped into
  \<open>[0, size - 2]\<close> and the normalised distance into that cell, and sums the sixteen
  corner values of the cell, each weighted by the product of its per-axis weights.
\<close>

definition searchsorted :: "real list \<Rightarrow> real \<Rightarrow> nat" where
  "searchsorted grid x = length (filter (\<lambda>g. g < x) grid)"

definition find_indices :: "real list \<Rightarrow> real \<Rightarrow> nat \<times> real" where
  "find_indices grid x =
     (let i = int (searchsorted grid x) - 1;
          i = (if i < 0 then 0 else i);
          i = (if i > int (length grid) - 2 then int (length grid) - 2 else i);
          denom = grid ! (nat i + 1) - grid ! nat i
      in (nat i, (x - grid ! nat i) / denom))"

definition evaluate_linear :: "value_array \<Rightarrow> (nat \<times> real) list \<Rightarrow> real" where
  "evaluate_linear values ixs =
     (case ixs of
        [(i0, y0), (i1, y1), (i2, y2), (i3, y3)] \<Rightarrow>
          sum_list (map (\<lambda>((a, wa), (b, wb), (c, wc), (d, wd)).
                           values (a, b, c, d) * (1 * wa * wb * wc * wd))
            (List.product [(i0, 1 - y0), (i0 + 1, y0)]
              (List.product [(i1, 1 - y1), (i1 + 1, y1)]
                (List.product [(i2, 1 - y2), (i2 + 1, y2)]
                  [(i3, 1 - y3), (i3 + 1, y3)]))))
      | _ \<Rightarrow> 0)"

fun in_bounds :: "real list \<Rightarrow> npfloat \<Rightarrow> bool" where
  "in_bounds grid (Fin x) = (hd grid \<le> x \<and> x \<le> last grid)"
| "in_bounds grid PosInf = False"
| "in_bounds grid NegInf = False"
| "in_bounds grid NaN = False"

fun finite_part :: "npfloat \<Rightarrow> real" where
  "finite_part (Fin x) = x"
| "finite_part PosInf = 0"
| "finite_part NegInf = 0"
| "finite_part NaN = 0"

definition RegularGridInterpolator ::
  "real list list \<Rightarrow> value_array \<Rightarrow> npfloat list \<Rightarrow> py_error + real" where
  "RegularGridInterpolator points values xi =
     (if \<exists>grid \<in> set points. length grid < 2 then Inl Not_modelled
      else if \<not> list_all2 in_bounds points xi then Inl ValueError_out_of_bounds
      else Inr (evaluate_linear values
                  (map2 (\<lambda>grid x. find_indices grid (finite_part x)) points xi)))"

subsection \<open>The model object and the objective\<close>

text \<open>
  The class \<^verbatim>\<open>Model\<close>: the cost function \<^verbatim>\<open>u\<close>, the transition function \<^verbatim>\<open>f\<close> and the two
  grid axes.  The fields \<^verbatim>\<open>u\<close> and \<^verbatim>\<open>f\<close> are named \<open>u_fn\<close> and \<open>f_fn\<close>.
\<close>

record Model =
  u_fn :: "vec2 \<Rightarrow> state \<Rightarrow> real"
  f_fn :: "vec2 \<Rightarrow> state \<Rightarrow> npvec2 \<times> npvec2 \<times> npvec2 \<times> vec2"
  gridS :: "real list"
  gridI :: "real list"

definition Model_init ::
  "(vec2 \<Rightarrow> state \<Rightarrow> real) \<Rightarrow> (vec2 \<Rightarrow> state \<Rightarrow> npvec2 \<times> npvec2 \<times> npvec2 \<times> vec2)
     \<Rightarrow> int \<Rightarrow> py_error + Model" where
  "Model_init u f grid_size =
     (case linspace (1 / 10000) 1 grid_size of
        Inl e \<Rightarrow> Inl e
      | Inr gS \<Rightarrow>
          (case linspace (1 / 10000) (1 / 2) grid_size of
             Inl e \<Rightarrow> Inl e
           | Inr gI \<Rightarrow> Inr \<lparr>u_fn = u, f_fn = f, gridS = gS, gridI = gI\<rparr>))"

definition obj_func :: "Model \<Rightarrow> vec2 \<Rightarrow> state \<Rightarrow> value_array \<Rightarrow> py_error + real" where
  "obj_func og c y v_array =
     (let u = u_fn og;
          f = f_fn og;
          v = RegularGridInterpolator [gridS og, gridS og, gridI og, gridI og] v_array
      in case f c y of
           (s0, i0, r0, d0) \<Rightarrow>
             (case v [fst s0, snd s0, fst i0, snd i0] of
                Inl e \<Rightarrow> Inl e
              | Inr cont \<Rightarrow> Inr (u c y * dt + exp (- (nu + ir) * dt) * cont)))"

subsection \<open>The bounded minimizer\<close>

text \<open>
  \<^verbatim>\<open>scipy.optimize.minimize\<close> with \<^verbatim>\<open>method = 'L-BFGS-B'\<close> is library code: it is a parameter
  of the model, a function of the objective, the initial guess and the bounds that returns
  the pair \<^verbatim>\<open>(result.x, result.fun)\<close> or raises (its own error, or one of the objective's).
\<close>

type_synonym bounds = "(real \<times> real) \<times> (real \<times> real)"
type_synonym minimizer =
  "(vec2 \<Rightarrow> py_error + real) \<Rightarrow> vec2 \<Rightarrow> bounds \<Rightarrow> py_error + vec2 \<times> real"

definition minimize_wrap ::
  "minimizer \<Rightarrow> (vec2 \<Rightarrow> state \<Rightarrow> value_array \<Rightarrow> py_error + real) \<Rightarrow> bounds
     \<Rightarrow> state \<times> value_array \<Rightarrow> py_error + vec2 \<times> real" where
  "minimize_wrap minimize g bds args =
     (let objective = (\<lambda>x. g x (fst args) (snd args))
      in case minimize objective (0, 1) bds of
           Inl e \<Rightarrow> Inl e
         | Inr result \<Rightarrow> (let minimizer = fst result; minimum = snd result
                          in Inr (minimizer, minimum)))"

subsection \<open>The Bellman sweep\<close>

text \<open>
  \<^verbatim>\<open>T(v, og)\<close> visits the index tuples in four nested loops, \<open>i\<close> outermost.  The variables
  of the sweep are the two arrays under construction and the tracked tuple
  \<^verbatim>\<open>sy, so, iy, io\<close>.  \<^verbatim>\<open>np.empty_like(v)\<close> gives \<^verbatim>\<open>v_new\<close> arbitrary contents: they are the
  parameter \<open>uninit\<close>.  The notebook's global \<^verbatim>\<open>N\<close>, the shape of \<^verbatim>\<open>v_greedy\<close>, is the grid
  size the model object was built with, so every index the loops produce is in range.

  The field \<open>opt_calls\<close> is not a variable of the source: it records, in order, the cells
  at which the sweep calls \<^verbatim>\<open>minimize_wrap\<close>.
\<close>

record sweep_state =
  v_new :: value_array
  v_greedy :: policy_array
  tracked :: cell
  opt_calls :: "cell list"

definition cells :: "Model \<Rightarrow> cell list" where
  "cells og =
     List.product [0..<length (gridS og)]
       (List.product [0..<length (gridS og)]
         (List.product [0..<length (gridI og)] [0..<length (gridI og)]))"

definition bds :: bounds where
  "bds = ((1 / 10000, fst L_max), (1 / 10000, snd L_max))"

definition bellman :: "Model \<Rightarrow> cell \<Rightarrow> state" where
  "bellman og c =
     (case c of (i, j, k, l) \<Rightarrow> ((gridS og ! i, gridS og ! j), (gridI og ! k, gridI og ! l)))"

definition T_cell ::
  "minimizer \<Rightarrow> Model \<Rightarrow> value_array \<Rightarrow> cell \<Rightarrow> sweep_state \<Rightarrow> py_error + sweep_state" where
  "T_cell minimize og v c st =
     (let b2 = np_sum_axis0 (bellman og c)
      in if fst b2 \<le> fst P_par + 2 / 100 \<and> snd b2 \<le> snd P_par + 2 / 100 then
           if np_sum_all (bellman og c) \<ge> 1 - herd_threshold then
             (case minimize_wrap minimize (obj_func og) bds (bellman og c, v) of
                Inl e \<Rightarrow> Inl e
              | Inr (c_star, v_max) \<Rightarrow>
                  Inr (st\<lparr>v_greedy := (v_greedy st)(c := c_star),
                          v_new := (v_new st)(c := v_max),
                          tracked := c,
                          opt_calls := opt_calls st @ [c]\<rparr>))
           else
             Inr (st\<lparr>v_greedy := (v_greedy st)(c := (0, 0)),
                     v_new := (v_new st)(c := 0)\<rparr>)
         else
           Inr (st\<lparr>v_new := (v_new st)(c := v_new st (tracked st)),
                   v_greedy := (v_greedy st)(c := v_greedy st (tracked st))\<rparr>))"

fun T_loop ::
  "minimizer \<Rightarrow> Model \<Rightarrow> value_array \<Rightarrow> cell list \<Rightarrow> sweep_state \<Rightarrow> py_error + sweep_state" where
  "T_loop minimize og v [] st = Inr st"
| "T_loop minimize og v (c # cs) st =
     (case T_cell minimize og v c st of
        Inl e \<Rightarrow> Inl e
      | Inr st' \<Rightarrow> T_loop minimize og v cs st')"

definition T_init :: "value_array \<Rightarrow> sweep_state" where
  "T_init uninit =
     \<lparr>v_new = uninit, v_greedy = (\<lambda>c. (0, 0)), tracked = (0, 0, 0, 0), opt_calls = []\<rparr>"

definition T_run ::
  "minimizer \<Rightarrow> value_array \<Rightarrow> value_array \<Rightarrow> Model \<Rightarrow> py_error + sweep_state" where
  "T_run minimize uninit v og = T_loop minimize og v (cells og) (T_init uninit)"

definition T ::
  "minimizer \<Rightarrow> value_array \<Rightarrow> value_array \<Rightarrow> Model
     \<Rightarrow> py_error + policy_array \<times> value_array" where
  "T minimize uninit v og =
     (case T_run minimize uninit v og of
        Inl e \<Rightarrow> Inl e
      | Inr st \<Rightarrow> Inr (v_greedy st, v_new st))"

text \<open>The three kinds of cell, as the two tests of the sweep tell them apart.\<close>

definition within_bound :: "Model \<Rightarrow> cell \<Rightarrow> bool" where
  "within_bound og c =
     (fst (np_sum_axis0 (bellman og c)) \<le> fst P_par + 2 / 100
      \<and> snd (np_sum_axis0 (bellman og c)) \<le> snd P_par + 2 / 100)"

definition exterior :: "Model \<Rightarrow> cell \<Rightarrow> bool" where
  "exterior og c = (\<not> within_bound og c)"

definition post_herd :: "Model \<Rightarrow> cell \<Rightarrow> bool" where
  "post_herd og c = (within_bound og c \<and> np_sum_all (bellman og c) < 1 - herd_threshold)"

definition interior :: "Model \<Rightarrow> cell \<Rightarrow> bool" where
  "interior og c = (within_bound og c \<and> np_sum_all (bellman og c) \<ge> 1 - herd_threshold)"

text \<open>
  The tuple \<^verbatim>\<open>sy, so, iy, io\<close> after a prefix of the traversal: the last
  interior cell of the prefix, and the initial \<open>(0, 0, 0, 0)\<close> when it has none.
\<close>

fun last_interior :: "Model \<Rightarrow> cell list \<Rightarrow> cell \<Rightarrow> cell" where
  "last_interior og [] t = t"
| "last_interior og (c # cs) t = last_interior og cs (if interior og c then c else t)"

definition tracked_before :: "Model \<Rightarrow> nat \<Rightarrow> cell" where
  "tracked_before og n = last_interior og (take n (cells og)) (0, 0, 0, 0)"

subsection \<open>The value-iteration loop\<close>

text \<open>
  \<^verbatim>\<open>solve_model\<close> prints as it goes and returns the pair \<^verbatim>\<open>(v_greedy, v_new)\<close> of the last
  sweep.  The printed lines are the list \<open>printed\<close>.  The locals \<^verbatim>\<open>v_greedy\<close> and \<^verbatim>\<open>v_new\<close> are
  unbound until the first sweep: \<open>last_sweep\<close> is \<open>None\<close> until then, and the final
  \<^verbatim>\<open>return\<close> raises when it still is.  In the loop body they are \<open>vg\<close> and \<open>vn\<close>.
  The sweep is a parameter of the loop; \<open>solve_model\<close> passes \<open>T\<close>, with the same arbitrary
  contents \<open>uninit\<close> for the fresh array of every sweep.
\<close>

datatype message = Error_at_iteration int real | Failed_to_converge | Converged_in int

record loop_state =
  v_cur :: value_array
  iter :: int
  error :: real
  last_sweep :: "(policy_array \<times> value_array) option"
  printed :: "message list"

text \<open>\<^verbatim>\<open>np.max(np.abs(v - v_new))\<close> over the whole array; the maximum of no entries raises.\<close>

definition sup_norm :: "cell list \<Rightarrow> value_array \<Rightarrow> value_array \<Rightarrow> py_error + real" where
  "sup_norm cs v v' =
     (if cs = [] then Inl ValueError_zero_size
      else Inr (Max (set (map (\<lambda>c. \<bar>v c - v' c\<bar>) cs))))"

type_synonym sweep_fn = "value_array \<Rightarrow> py_error + policy_array \<times> value_array"

definition loop_body ::
  "sweep_fn \<Rightarrow> cell list \<Rightarrow> bool \<Rightarrow> int \<Rightarrow> loop_state \<Rightarrow> py_error + loop_state" where
  "loop_body sweep cs verbose print_skip st =
     (case sweep (v_cur st) of
        Inl e \<Rightarrow> Inl e
      | Inr (vg, vn) \<Rightarrow>
          (case sup_norm cs (v_cur st) vn of
             Inl e \<Rightarrow> Inl e
           | Inr error' \<Rightarrow>
               if verbose \<and> print_skip = 0 then Inl ZeroDivisionError
               else Inr \<lparr>v_cur = vn,
                         iter = iter st + 1,
                         error = error',
                         last_sweep = Some (vg, vn),
                         printed = printed st @
                           (if verbose \<and> iter st mod print_skip = 0
                            then [Error_at_iteration (iter st) error'] else [])\<rparr>))"

function solve_loop ::
  "sweep_fn \<Rightarrow> cell list \<Rightarrow> int \<Rightarrow> real \<Rightarrow> bool \<Rightarrow> int \<Rightarrow> loop_state \<Rightarrow> py_error + loop_state" where
  "solve_loop sweep cs max_iter tol verbose print_skip st =
     (if iter st < max_iter \<and> error st > tol then
        (case loop_body sweep cs verbose print_skip st of
           Inl e \<Rightarrow> Inl e
         | Inr st' \<Rightarrow> solve_loop sweep cs max_iter tol verbose print_skip st')
      else Inr st)"
  by pat_completeness auto
termination
proof (relation "measure (\<lambda>(sweep, cs, max_iter, tol, verbose, print_skip, st). nat (max_iter - iter st))")
  show "wf (measure (\<lambda>(sweep, cs, max_iter, tol, verbose, print_skip, st). nat (max_iter - iter st)))"
    by simp
next
  fix sweep :: sweep_fn and cs max_iter and tol :: real and verbose print_skip st st'
  assume "iter st < max_iter \<and> tol < error st"
    and "loop_body sweep cs verbose print_skip st = Inr st'"
  then show "((sweep, cs, max_iter, tol, verbose, print_skip, st'),
              (sweep, cs, max_iter, tol, verbose, print_skip, st))
      \<in> measure (\<lambda>(sweep, cs, max_iter, tol, verbose, print_skip, st). nat (max_iter - iter st))"
    by (auto simp: loop_body_def split: sum.splits prod.splits if_splits)
qed

declare solve_loop.simps [simp del]

record solve_result =
  stdout :: "message list"
  returned :: "policy_array \<times> value_array"

text \<open>The locals before the loop: \<^verbatim>\<open>v = v0\<close>, \<^verbatim>\<open>iter = 0\<close>, \<^verbatim>\<open>error = tol + 1\<close>.\<close>

definition solve_init :: "value_array \<Rightarrow> real \<Rightarrow> loop_state" where
  "solve_init v0 tol =
     \<lparr>v_cur = v0, iter = 0, error = tol + 1, last_sweep = None, printed = []\<rparr>"

definition solve_model ::
  "minimizer \<Rightarrow> value_array \<Rightarrow> Model \<Rightarrow> value_array \<Rightarrow> int \<Rightarrow> real \<Rightarrow> bool \<Rightarrow> int
     \<Rightarrow> py_error + solve_result" where
  "solve_model minimize uninit og v0 max_iter tol verbose print_skip =
     (let st0 = solve_init v0 tol
      in case solve_loop (\<lambda>v. T minimize uninit v og) (cells og) max_iter tol verbose
                print_skip st0 of
           Inl e \<Rightarrow> Inl e
         | Inr st \<Rightarrow>
             (let out = printed st
                    @ (if iter st = max_iter
                       then [Error_at_iteration (iter st) (error st), Failed_to_converge]
                       else [])
                    @ (if verbose \<and> iter st < max_iter then [Converged_in (iter st)] else [])
              in case last_sweep st of
                   None \<Rightarrow> Inl UnboundLocalError
                 | Some r \<Rightarrow> Inr \<lparr>stdout = out, returned = r\<rparr>))"

text \<open>
  The state after \<open>n\<close> passes through the loop body, taken without the loop test: the
  sequence of iterates against which the loop's exit is stated.
\<close>

fun loop_iterates ::
  "sweep_fn \<Rightarrow> cell list \<Rightarrow> bool \<Rightarrow> int \<Rightarrow> nat \<Rightarrow> loop_state \<Rightarrow> py_error + loop_state" where
  "loop_iterates sweep cs verbose print_skip 0 st = Inr st"
| "loop_iterates sweep cs verbose print_skip (Suc n) st =
     (case loop_iterates sweep cs verbose print_skip n st of
        Inl e \<Rightarrow> Inl e
      | Inr s \<Rightarrow> loop_body sweep cs verbose print_skip s)"

subsection \<open>Stand-ins for running the solver\<close>

text \<open>
  A model object takes any cost and transition function.  For concrete runs the theory
  uses the constant cost 1 and the identity transition, and in place of the library's
  optimizer the simplest function of its type: it clips the initial guess into the
  bounds, as the library does on entry, evaluates the objective there and returns that
  point.  On a constant objective this is what a descent method returns too.
\<close>

definition unit_cost :: "vec2 \<Rightarrow> state \<Rightarrow> real" where
  "unit_cost c y = 1"

definition identity_transition :: "vec2 \<Rightarrow> state \<Rightarrow> npvec2 \<times> npvec2 \<times> npvec2 \<times> vec2" where
  "identity_transition c y =
     ((Fin (fst (fst y)), Fin (snd (fst y))), (Fin (fst (snd y)), Fin (snd (snd y))),
      (Fin 0, Fin 0), (0, 0))"

definition clip :: "vec2 \<Rightarrow> bounds \<Rightarrow> vec2" where
  "clip x b = (min (max (fst x) (fst (fst b))) (snd (fst b)),
               min (max (snd x) (fst (snd b))) (snd (snd b)))"

definition minimize_at_start :: minimizer where
  "minimize_at_start g x0 b =
     (let x = clip x0 b in case g x of Inl e \<Rightarrow> Inl e | Inr y \<Rightarrow> Inr (x, y))"

definition zeros :: value_array where
  "zeros = (\<lambda>c. 0)"

definition og2 :: Model where
  "og2 = \<lparr>u_fn = unit_cost, f_fn = identity_transition,
          gridS = [1 / 10000, 1], gridI = [1 / 10000, 1 / 2]\<rparr>"

definition in_box :: "bounds \<Rightarrow> vec2 \<Rightarrow> bool" where
  "in_box b x = (fst (fst b) \<le> fst x \<and> fst x \<le> snd (fst b)
                 \<and> fst (snd b) \<le> snd x \<and> snd x \<le> snd (snd b))"

text \<open>Reading one entry of what a sweep returns.\<close>

definition value_at :: "py_error + policy_array \<times> value_array \<Rightarrow> cell \<Rightarrow> py_error + real" where
  "value_at r c = (case r of Inl e \<Rightarrow> Inl e | Inr (vg, vn) \<Rightarrow> Inr (vn c))"

definition policy_at :: "py_error + policy_array \<times> value_array \<Rightarrow> cell \<Rightarrow> py_error + vec2" where
  "policy_at r c = (case r of Inl e \<Rightarrow> Inl e | Inr (vg, vn) \<Rightarrow> Inr (vg c))"

subsection \<open>The one-step objective as the design document words it\<close>

text \<open>
  The design document gives the objective of an interior cell as
  \<^verbatim>\<open>g(control) = instantaneous_cost(control, state) * dt
       + discount_factor * continuation_value(next_state(control, state))\<close>
  with \<^verbatim>\<open>discount_factor = exp(-(nu + r) * dt)\<close>.  The continuation value is the quadrilinear
  interpolation of the previous value array at the susceptible and infected coordinates of
  the next state: the interpolator locates the enclosing grid cell on each axis and
  interpolates linearly along each axis in turn, and it fails when the query falls outside
  \<^verbatim>\<open>[axis.min, axis.max]\<close> on an axis.

  The definitions of this subsection follow these words only.  None of them uses the
  interpolator of the source: a grid cell is given by its lower index on each axis, it
  encloses a coordinate when the coordinate lies between its two grid points, and the blend
  weight is the relative position of the coordinate between them.
\<close>

definition discount_factor :: real where
  "discount_factor = exp (- (nu + ir) * dt)"

definition encloses :: "real list \<Rightarrow> nat \<Rightarrow> real \<Rightarrow> bool" where
  "encloses axis i x = (i + 1 < length axis \<and> axis ! i \<le> x \<and> x \<le> axis ! (i + 1))"

definition blend_weight :: "real list \<Rightarrow> nat \<Rightarrow> real \<Rightarrow> real" where
  "blend_weight axis i x = (x - axis ! i) / (axis ! (i + 1) - axis ! i)"

definition lerp :: "real \<Rightarrow> real \<Rightarrow> real \<Rightarrow> real" where
  "lerp t a b = (1 - t) * a + t * b"

text \<open>Linear interpolation along one axis, of a function of the index on that axis.\<close>

definition axis_lerp :: "real list \<Rightarrow> nat \<Rightarrow> real \<Rightarrow> (nat \<Rightarrow> real) \<Rightarrow> real" where
  "axis_lerp axis i x f = lerp (blend_weight axis i x) (f i) (f (i + 1))"

text \<open>
  Quadrilinear interpolation inside a given grid cell: linear interpolation along each of
  the four axes in turn, over the 16 corners of the cell.
\<close>

definition quadrilinear ::
  "real list \<times> real list \<times> real list \<times> real list \<Rightarrow> value_array \<Rightarrow> cell
     \<Rightarrow> real \<times> real \<times> real \<times> real \<Rightarrow> real" where
  "quadrilinear axes values corner q =
     (case axes of
        (g0, g1, g2, g3) \<Rightarrow>
          (case corner of
             (i, j, k, l) \<Rightarrow>
               (case q of
                  (x0, x1, x2, x3) \<Rightarrow>
                    axis_lerp g0 i x0 (\<lambda>a.
                      axis_lerp g1 j x1 (\<lambda>b.
                        axis_lerp g2 k x2 (\<lambda>m.
                          axis_lerp g3 l x3 (\<lambda>n. values (a, b, m, n))))))))"

definition in_domain :: "real list \<Rightarrow> real \<Rightarrow> bool" where
  "in_domain axis x = (axis \<noteq> [] \<and> Min (set axis) \<le> x \<and> x \<le> Max (set axis))"

text \<open>
  \<open>continuation_value og v_prev q r\<close>: the number \<open>r\<close> is the quadrilinear interpolation of
  the array \<open>v_prev\<close> at the query point \<open>q\<close>, taken in a grid cell that encloses \<open>q\<close> on each
  of the four axes (susceptible young and old on \<open>gridS\<close>, infected young and old on
  \<open>gridI\<close>).
\<close>

definition continuation_value ::
  "Model \<Rightarrow> value_array \<Rightarrow> real \<times> real \<times> real \<times> real \<Rightarrow> real \<Rightarrow> bool" where
  "continuation_value og v_prev q r =
     (case q of
        (x0, x1, x2, x3) \<Rightarrow>
          (\<exists>i j k l. encloses (gridS og) i x0 \<and> encloses (gridS og) j x1
             \<and> encloses (gridI og) k x2 \<and> encloses (gridI og) l x3
             \<and> r = quadrilinear (gridS og, gridS og, gridI og, gridI og) v_prev
                     (i, j, k, l) q))"

text \<open>
  For a concrete sweep in which the interpolation does some work: a value array that differs
  at every corner of a cell, a transition stand-in whose next state is the midpoint of a
  grid cell of the three-point grid, whatever the control and the state, and the model
  object that \<open>Model_init\<close> builds from them with three grid points.
\<close>

definition ramp :: value_array where
  "ramp = (\<lambda>(i, j, k, l). real (i + 2 * j + 4 * k + 8 * l))"

definition midpoint_transition :: "vec2 \<Rightarrow> state \<Rightarrow> npvec2 \<times> npvec2 \<times> npvec2 \<times> vec2" where
  "midpoint_transition c y =
     ((Fin (30001 / 40000), Fin (10003 / 40000)), (Fin (5003 / 40000), Fin (15001 / 40000)),
      (Fin 0, Fin 0), (0, 0))"

definition og3 :: Model where
  "og3 = \<lparr>u_fn = unit_cost, f_fn = midpoint_transition,
          gridS = [1 / 10000, 10001 / 20000, 1], gridI = [1 / 10000, 5001 / 20000, 1 / 2]\<rparr>"

text \<open>An optimizer stand-in that hands back the initial guess it was given.\<close>

definition probe_guess :: minimizer where
  "probe_guess g x0 b = Inr (x0, 0)"

subsection \<open>The death increment of one step\<close>

text \<open>
  Two names for parts of \<open>dynamics\<close>, used to state when its divisor is not zero:
  \<^verbatim>\<open>dD\<close>, and \<^verbatim>\<open>D_new\<close> after the two clippings.
\<close>

definition death_increment :: "vec2 \<Rightarrow> state \<Rightarrow> vec2" where
  "death_increment L_d st =
     vadd (vmul (phi (snd st)) (snd st))
          (vmul (indir L_d) (vadd (fst st) (vsub P_par (np_sum_axis0 st))))"

definition D_clipped :: "vec2 \<Rightarrow> state \<Rightarrow> vec2" where
  "D_clipped L_d st =
     (max (min (fst (smul dt (death_increment L_d st))) 1) 0,
      max (min (snd (smul dt (death_increment L_d st))) 1) 0)"

text \<open>The notebook's model object for two grid points per axis.\<close>

definition og_notebook2 :: Model where
  "og_notebook2 = \<lparr>u_fn = cost, f_fn = dynamics,
                   gridS = [1 / 10000, 1], gridI = [1 / 10000, 1 / 2]\<rparr>"

text \<open>The notebook's model object for one grid point per axis, and for none.\<close>

definition og_notebook1 :: Model where
  "og_notebook1 = \<lparr>u_fn = cost, f_fn = dynamics, gridS = [1 / 10000], gridI = [1 / 10000]\<rparr>"

definition og_notebook0 :: Model where
  "og_notebook0 = \<lparr>u_fn = cost, f_fn = dynamics, gridS = [], gridI = []\<rparr>"

section \<open>Verification\<close>

subsection \<open>The social cost\<close>

lemmas vec_defs = vadd_def vsub_def vmul_def vneg_def vexp_def smul_def sadd_def ssub_def
  sdiv_def np_sum_def np_dot_def

lemma career_factor_nonneg: "0 \<le> (1 - exp (- ir * c)) / ir" if "0 \<le> c" for c
proof -
  have "0 < ir" by (simp add: ir_def)
  moreover have "exp (- ir * c) \<le> 1" using that \<open>0 < ir\<close> by simp
  ultimately show ?thesis by simp
qed

lemma lost_salary_sum:
  "np_sum (lost_salary L st) = (6 / 10) * (818 / 1000) * fst L"
  by (simp add: lost_salary_def vec_defs Let_def wfh_def w_par_def p_par_def P_par_def)

lemma covid_deaths_sum:
  "np_sum (covid_deaths st) =
     11 * ((1 - exp (- ir * 7300)) / ir)
        * ((634 / 1000000 + 845 / 100000 * (fst (snd st) + snd (snd st))) / 18) * fst (snd st)"
proof -
  have "ir \<noteq> 0" by (simp add: ir_def)
  then show ?thesis
    by (simp add: covid_deaths_def phi_def vec_defs Let_def chi_def w_par_def career_def gamma_def
      field_simps)
qed

lemma non_covid_deaths_sum:
  "np_sum (non_covid_deaths L st) =
     ((1 - exp (- ir * 7300)) / ir) * (fst L / 100000) * (1 + 818 / 1000 - fst (snd st))"
  by (simp add: non_covid_deaths_def indir_def vec_defs Let_def w_par_def career_def alpha_L_def
      F_par_def P_par_def)

lemma future_unemployment_sum:
  "np_sum (future_unemployment L st) = (42 / 100) * fst L * (818 / 1000 - fst (snd st))"
  by (simp add: future_unemployment_def empl_def vec_defs Let_def w_par_def alpha_E_def P_par_def)

lemma cost_terms:
  "cost L st =
    (if np_sum (snd st) = 0 then 0
     else np_sum (lost_salary L st) + np_sum (covid_deaths st)
        + np_sum (non_covid_deaths L st) + np_sum (future_unemployment L st))"
  by (simp add: cost_def Let_def vadd_def np_sum_def)


text \<open>
  C9.  For every control within the box bounds \<open>[1e-4, L_max]\<close> and every state with
  non-negative entries whose column sums (susceptible plus infected of a group) do not
  exceed the group's population share plus the slack 0.02, \<open>cost\<close> returns a value that is
  at least 0, and it returns exactly 0 when the total infection mass is zero.
\<close>

theorem cost_nonneg:
  assumes "1 / 10000 \<le> fst L" and "fst L \<le> fst L_max"
    and "1 / 10000 \<le> snd L" and "snd L \<le> snd L_max"
    and "0 \<le> fst (fst st)" and "0 \<le> snd (fst st)"
    and "0 \<le> fst (snd st)" and "0 \<le> snd (snd st)"
    and "fst (fst st) + fst (snd st) \<le> fst P_par + 2 / 100"
    and "snd (fst st) + snd (snd st) \<le> snd P_par + 2 / 100"
  shows "0 \<le> cost L st \<and> (np_sum (snd st) = 0 \<longrightarrow> cost L st = 0)"
proof -
  define K where "K = (1 - exp (- ir * 7300)) / ir"
  define Ly where "Ly = fst L"
  define Iy where "Iy = fst (snd st)"
  define Io where "Io = snd (snd st)"
  have K: "0 \<le> K" unfolding K_def by (rule career_factor_nonneg) simp
  have Ly: "0 \<le> Ly" using assms(1) by (simp add: Ly_def)
  have Iy: "0 \<le> Iy" and Io: "0 \<le> Io" using assms(7,8) by (simp_all add: Iy_def Io_def)
  have Iy_le: "Iy \<le> 838 / 1000" using assms(5,9) by (simp add: Iy_def P_par_def)
  have t14: "0 \<le> (6 / 10) * (818 / 1000) * Ly + (42 / 100) * Ly * (818 / 1000 - Iy)"
  proof -
    have "(6 / 10) * (818 / 1000) * Ly + (42 / 100) * Ly * (818 / 1000 - Iy)
        = Ly * ((6 / 10) * (818 / 1000) + (42 / 100) * (818 / 1000 - Iy))"
      by (simp add: algebra_simps)
    moreover have "0 \<le> (6 / 10) * (818 / 1000) + (42 / 100) * (818 / 1000 - Iy)"
      using Iy_le by argo
    ultimately show ?thesis using Ly by simp
  qed
  have t2: "0 \<le> 11 * K * ((634 / 1000000 + 845 / 100000 * (Iy + Io)) / 18) * Iy"
    using K Iy Io by simp
  have t3: "0 \<le> K * (Ly / 100000) * (1 + 818 / 1000 - Iy)"
    using K Ly Iy_le by simp
  have "0 \<le> np_sum (lost_salary L st) + np_sum (covid_deaths st)
        + np_sum (non_covid_deaths L st) + np_sum (future_unemployment L st)"
    using t14 t2 t3
    unfolding lost_salary_sum covid_deaths_sum non_covid_deaths_sum future_unemployment_sum
      K_def Ly_def Iy_def Io_def
    by linarith
  then show ?thesis by (simp add: cost_terms)
qed

theorem cost_nonneg_witness:
  "(1 / 10000 \<le> fst ((1 / 2, 1 / 2) :: vec2) \<and> fst ((1 / 2, 1 / 2) :: vec2) \<le> fst L_max
    \<and> 1 / 10000 \<le> snd ((1 / 2, 1 / 2) :: vec2) \<and> snd ((1 / 2, 1 / 2) :: vec2) \<le> snd L_max)
   \<and> 0 \<le> cost (1 / 2, 1 / 2) ((1 / 10, 1 / 10), (1 / 100, 1 / 100))
   \<and> np_sum (snd (((1 / 10, 1 / 10), (0, 0)) :: state)) = 0
   \<and> cost (1 / 2, 1 / 2) ((1 / 10, 1 / 10), (0, 0)) = 0"
  using cost_nonneg [of "(1 / 2, 1 / 2)" "((1 / 10, 1 / 10), (1 / 100, 1 / 100))"]
    cost_nonneg [of "(1 / 2, 1 / 2)" "((1 / 10, 1 / 10), (0, 0))"]
  by (simp add: L_max_def P_par_def np_sum_def)

text \<open>The ICU penalty is not identically zero: it is positive at half-infected groups.\<close>

lemma ICU_positive_example: "ICU (1 / 2, 1 / 2) = 4963 / 10"
  by (simp add: ICU_def Let_def vec_defs iota_def ICU_max_def eta_def)

text \<open>
  C10 (as amended).  When the total infection mass is not zero, \<open>cost\<close> is the sum of the
  lost-salary, COVID-death, non-COVID-death and future-unemployment terms only, and when it
  is zero \<open>cost\<close> is 0; in neither case is the ICU penalty added, so wherever that penalty
  is positive the result differs from the four terms plus the penalty.
\<close>

theorem cost_ignores_ICU:
  "cost L st =
     (if np_sum (snd st) = 0 then 0
      else np_sum (lost_salary L st) + np_sum (covid_deaths st)
         + np_sum (non_covid_deaths L st) + np_sum (future_unemployment L st))
   \<and> (np_sum (snd st) \<noteq> 0 \<and> 0 < ICU (snd st) \<longrightarrow>
        cost L st \<noteq> np_sum (lost_salary L st) + np_sum (covid_deaths st)
         + np_sum (non_covid_deaths L st) + np_sum (future_unemployment L st) + ICU (snd st))"
  by (simp add: cost_terms)

theorem cost_ignores_ICU_witness:
  "np_sum (snd (((1 / 10, 1 / 10), (1 / 2, 1 / 2)) :: state)) \<noteq> 0
   \<and> 0 < ICU (snd (((1 / 10, 1 / 10), (1 / 2, 1 / 2)) :: state))
   \<and> cost (7 / 10, 1) ((1 / 10, 1 / 10), (1 / 2, 1 / 2))
      \<noteq> np_sum (lost_salary (7 / 10, 1) ((1 / 10, 1 / 10), (1 / 2, 1 / 2)))
        + np_sum (covid_deaths ((1 / 10, 1 / 10), (1 / 2, 1 / 2)))
        + np_sum (non_covid_deaths (7 / 10, 1) ((1 / 10, 1 / 10), (1 / 2, 1 / 2)))
        + np_sum (future_unemployment (7 / 10, 1) ((1 / 10, 1 / 10), (1 / 2, 1 / 2)))
        + ICU (snd (((1 / 10, 1 / 10), (1 / 2, 1 / 2)) :: state))"
  using cost_ignores_ICU [of "(7 / 10, 1)" "((1 / 10, 1 / 10), (1 / 2, 1 / 2))"]
  by (simp add: ICU_positive_example np_sum_def)

text \<open>
  The claim as first stated, for every state, fails where the infection mass is zero:
  there \<open>cost\<close> is 0 while the four terms add up to a positive number.
\<close>

theorem cost_zero_infection_counterexample:
  "cost (7 / 10, 1) ((1 / 2, 1 / 10), (0, 0)) = 0
   \<and> 0 < np_sum (lost_salary (7 / 10, 1) ((1 / 2, 1 / 10), (0, 0)))
        + np_sum (covid_deaths ((1 / 2, 1 / 10), (0, 0)))
        + np_sum (non_covid_deaths (7 / 10, 1) ((1 / 2, 1 / 10), (0, 0)))
        + np_sum (future_unemployment (7 / 10, 1) ((1 / 2, 1 / 10), (0, 0)))"
proof -
  define K where "K = (1 - exp (- ir * 7300)) / ir"
  have K: "0 \<le> K" unfolding K_def by (rule career_factor_nonneg) simp
  have "0 \<le> K * (7 / 10 / 100000) * (1 + 818 / 1000)"
    by (intro mult_nonneg_nonneg K) simp_all
  then have "0 < 6 / 10 * (818 / 1000) * (7 / 10) + K * (7 / 10 / 100000) * (1 + 818 / 1000)
      + 42 / 100 * (7 / 10) * (818 / 1000)"
    by linarith
  then have "0 < np_sum (lost_salary (7 / 10, 1) ((1 / 2, 1 / 10), (0, 0)))
        + np_sum (covid_deaths ((1 / 2, 1 / 10), (0, 0)))
        + np_sum (non_covid_deaths (7 / 10, 1) ((1 / 2, 1 / 10), (0, 0)))
        + np_sum (future_unemployment (7 / 10, 1) ((1 / 2, 1 / 10), (0, 0)))"
    unfolding lost_salary_sum covid_deaths_sum non_covid_deaths_sum future_unemployment_sum K_def
    by simp
  moreover have "cost (7 / 10, 1) ((1 / 2, 1 / 10), (0, 0)) = 0"
    by (simp add: cost_def np_sum_def)
  ultimately show ?thesis by simp
qed

subsection \<open>One sweep: the cells and the tracked index\<close>

lemma cell_kinds:
  "exterior og c \<or> post_herd og c \<or> interior og c"
  "\<not> (exterior og c \<and> post_herd og c)"
  "\<not> (exterior og c \<and> interior og c)"
  "\<not> (post_herd og c \<and> interior og c)"
  by (auto simp: exterior_def post_herd_def interior_def)

lemma T_cell_exterior:
  "exterior og c \<Longrightarrow>
   T_cell minimize og v c st =
     Inr (st\<lparr>v_new := (v_new st)(c := v_new st (tracked st)),
             v_greedy := (v_greedy st)(c := v_greedy st (tracked st))\<rparr>)"
  by (auto simp: T_cell_def exterior_def within_bound_def Let_def)

lemma T_cell_post_herd:
  "post_herd og c \<Longrightarrow>
   T_cell minimize og v c st =
     Inr (st\<lparr>v_greedy := (v_greedy st)(c := (0, 0)), v_new := (v_new st)(c := 0)\<rparr>)"
  by (auto simp: T_cell_def post_herd_def within_bound_def Let_def)

lemma T_cell_interior:
  "interior og c \<Longrightarrow>
   T_cell minimize og v c st =
     (case minimize_wrap minimize (obj_func og) bds (bellman og c, v) of
        Inl e \<Rightarrow> Inl e
      | Inr (c_star, v_max) \<Rightarrow>
          Inr (st\<lparr>v_greedy := (v_greedy st)(c := c_star),
                  v_new := (v_new st)(c := v_max),
                  tracked := c,
                  opt_calls := opt_calls st @ [c]\<rparr>))"
  by (auto simp: T_cell_def interior_def within_bound_def Let_def)

lemma T_cell_other:
  assumes "T_cell minimize og v c st = Inr st'" and "c' \<noteq> c"
  shows "v_new st' c' = v_new st c'" and "v_greedy st' c' = v_greedy st c'"
  using assms cell_kinds(1)[of og c]
  by (auto simp: T_cell_exterior T_cell_post_herd T_cell_interior split: sum.splits prod.splits)

lemma T_cell_tracked:
  assumes "T_cell minimize og v c st = Inr st'"
  shows "tracked st' = (if interior og c then c else tracked st)"
  using assms cell_kinds[of og c]
  by (auto simp: T_cell_exterior T_cell_post_herd T_cell_interior split: sum.splits prod.splits)

lemma T_cell_opt_calls:
  assumes "T_cell minimize og v c st = Inr st'"
  shows "opt_calls st' = opt_calls st @ (if interior og c then [c] else [])"
  using assms cell_kinds[of og c]
  by (auto simp: T_cell_exterior T_cell_post_herd T_cell_interior split: sum.splits prod.splits)

lemma T_loop_append:
  "T_loop minimize og v (xs @ ys) st =
     (case T_loop minimize og v xs st of
        Inl e \<Rightarrow> Inl e
      | Inr s \<Rightarrow> T_loop minimize og v ys s)"
  by (induction xs arbitrary: st) (auto split: sum.splits)

lemma T_loop_other:
  assumes "T_loop minimize og v cs st = Inr st'" and "c' \<notin> set cs"
  shows "v_new st' c' = v_new st c' \<and> v_greedy st' c' = v_greedy st c'"
  using assms
proof (induction cs arbitrary: st)
  case Nil
  then show ?case by simp
next
  case (Cons c cs)
  then obtain s where s: "T_cell minimize og v c st = Inr s" and r: "T_loop minimize og v cs s = Inr st'"
    by (auto split: sum.splits)
  from Cons.prems(2) have "c' \<noteq> c" "c' \<notin> set cs" by auto
  with Cons.IH[OF r] T_cell_other[OF s] show ?case by simp
qed

lemma T_loop_tracked:
  assumes "T_loop minimize og v cs st = Inr st'"
  shows "tracked st' = last_interior og cs (tracked st)"
  using assms
proof (induction cs arbitrary: st)
  case Nil
  then show ?case by simp
next
  case (Cons c cs)
  then obtain s where s: "T_cell minimize og v c st = Inr s" and r: "T_loop minimize og v cs s = Inr st'"
    by (auto split: sum.splits)
  show ?case using Cons.IH[OF r] T_cell_tracked[OF s] by simp
qed

lemma T_loop_opt_calls:
  assumes "T_loop minimize og v cs st = Inr st'"
  shows "opt_calls st' = opt_calls st @ filter (interior og) cs"
  using assms
proof (induction cs arbitrary: st)
  case Nil
  then show ?case by simp
next
  case (Cons c cs)
  then obtain s where s: "T_cell minimize og v c st = Inr s" and r: "T_loop minimize og v cs s = Inr st'"
    by (auto split: sum.splits)
  show ?case using Cons.IH[OF r] T_cell_opt_calls[OF s] by simp
qed

lemma last_interior_snoc:
  "last_interior og (cs @ [c]) t = (if interior og c then c else last_interior og cs t)"
  by (induction cs arbitrary: t) auto

lemma last_interior_cases:
  "(last_interior og cs t = t \<and> (\<forall>k < length cs. \<not> interior og (cs ! k)))
   \<or> (\<exists>m < length cs. last_interior og cs t = cs ! m \<and> interior og (cs ! m)
        \<and> (\<forall>k. m < k \<and> k < length cs \<longrightarrow> \<not> interior og (cs ! k)))"
proof (induction cs rule: rev_induct)
  case Nil
  then show ?case by simp
next
  case (snoc c cs)
  show ?case
  proof (cases "interior og c")
    case True
    then have "length cs < length (cs @ [c]) \<and> last_interior og (cs @ [c]) t = (cs @ [c]) ! length cs
      \<and> interior og ((cs @ [c]) ! length cs)
      \<and> (\<forall>k. length cs < k \<and> k < length (cs @ [c]) \<longrightarrow> \<not> interior og ((cs @ [c]) ! k))"
      by (auto simp: last_interior_snoc)
    then show ?thesis by blast
  next
    case False
    from snoc.IH show ?thesis
    proof
      assume "last_interior og cs t = t \<and> (\<forall>k<length cs. \<not> interior og (cs ! k))"
      then have "last_interior og (cs @ [c]) t = t
          \<and> (\<forall>k<length (cs @ [c]). \<not> interior og ((cs @ [c]) ! k))"
        using False by (auto simp: last_interior_snoc nth_append less_Suc_eq)
      then show ?thesis by blast
    next
      assume "\<exists>m<length cs. last_interior og cs t = cs ! m \<and> interior og (cs ! m)
          \<and> (\<forall>k. m < k \<and> k < length cs \<longrightarrow> \<not> interior og (cs ! k))"
      then obtain m where m: "m < length cs" "last_interior og cs t = cs ! m" "interior og (cs ! m)"
          "\<forall>k. m < k \<and> k < length cs \<longrightarrow> \<not> interior og (cs ! k)"
        by blast
      then have "m < length (cs @ [c]) \<and> last_interior og (cs @ [c]) t = (cs @ [c]) ! m
          \<and> interior og ((cs @ [c]) ! m)
          \<and> (\<forall>k. m < k \<and> k < length (cs @ [c]) \<longrightarrow> \<not> interior og ((cs @ [c]) ! k))"
        using False by (auto simp: last_interior_snoc nth_append less_Suc_eq)
      then show ?thesis by blast
    qed
  qed
qed

lemma distinct_cells: "distinct (cells og)"
  by (simp add: cells_def distinct_product)

lemma product_Nil_iff: "List.product xs ys = [] \<longleftrightarrow> xs = [] \<or> ys = []"
  by (induction xs) auto

lemma hd_product:
  "xs \<noteq> [] \<Longrightarrow> ys \<noteq> [] \<Longrightarrow> hd (List.product xs ys) = (hd xs, hd ys)"
  by (cases xs; cases ys) simp_all

lemma cells_first: "cells og \<noteq> [] \<Longrightarrow> cells og ! 0 = (0, 0, 0, 0)"
proof -
  assume ne: "cells og \<noteq> []"
  then have S: "[0..<length (gridS og)] \<noteq> []" and I: "[0..<length (gridI og)] \<noteq> []"
    unfolding cells_def product_Nil_iff by auto
  have "hd (cells og) = (0, 0, 0, 0)"
    unfolding cells_def using S I by (simp add: hd_product product_Nil_iff)
  then show ?thesis using ne by (simp add: hd_conv_nth)
qed

lemma T_loop_split:
  assumes "T_loop minimize og v cs st0 = Inr st" and "n < length cs"
  shows "\<exists>s1 s2. T_loop minimize og v (take n cs) st0 = Inr s1
           \<and> T_cell minimize og v (cs ! n) s1 = Inr s2
           \<and> T_loop minimize og v (drop (Suc n) cs) s2 = Inr st"
proof -
  have "cs = take n cs @ (cs ! n # drop (Suc n) cs)"
    using assms(2) by (simp add: id_take_nth_drop)
  then have "T_loop minimize og v (take n cs @ (cs ! n # drop (Suc n) cs)) st0 = Inr st"
    using assms(1) by simp
  then show ?thesis
    by (auto simp: T_loop_append split: sum.splits)
qed

lemma nth_not_in_drop:
  assumes "distinct cs" and "n < length cs"
  shows "cs ! n \<notin> set (drop (Suc n) cs)"
proof -
  have "cs = take n cs @ (cs ! n # drop (Suc n) cs)"
    using assms(2) by (simp add: id_take_nth_drop)
  then have "distinct (take n cs @ (cs ! n # drop (Suc n) cs))"
    using assms(1) by simp
  then show ?thesis by simp
qed

lemma take_not_in_rest:
  assumes "distinct cs" and "n < length cs" and "t \<in> set (take n cs)"
  shows "t \<noteq> cs ! n" and "t \<notin> set (drop (Suc n) cs)"
proof -
  have "cs = take n cs @ (cs ! n # drop (Suc n) cs)"
    using assms(2) by (simp add: id_take_nth_drop)
  then have "distinct (take n cs @ (cs ! n # drop (Suc n) cs))"
    using assms(1) by simp
  then show "t \<noteq> cs ! n" and "t \<notin> set (drop (Suc n) cs)"
    using assms(3) by auto
qed

lemma last_interior_mem: "last_interior og cs t = t \<or> last_interior og cs t \<in> set cs"
  by (induction cs arbitrary: t) auto

lemma T_run_exterior:
  assumes run: "T_run minimize uninit v og = Inr st"
    and n: "n < length (cells og)"
    and ext: "exterior og (cells og ! n)"
  shows "v_new st (cells og ! n) = v_new st (tracked_before og n)
       \<and> v_greedy st (cells og ! n) = v_greedy st (tracked_before og n)"
proof -
  define cs where "cs = cells og"
  define c where "c = cs ! n"
  define t where "t = tracked_before og n"
  have dist: "distinct cs" by (simp add: cs_def distinct_cells)
  from run n obtain s1 s2 where
    s1: "T_loop minimize og v (take n cs) (T_init uninit) = Inr s1"
    and s2: "T_cell minimize og v c s1 = Inr s2"
    and s3: "T_loop minimize og v (drop (Suc n) cs) s2 = Inr st"
    unfolding T_run_def cs_def c_def using T_loop_split by blast
  have tr: "tracked s1 = t"
    using T_loop_tracked[OF s1] by (simp add: t_def tracked_before_def cs_def T_init_def)
  have s2_eq: "s2 = s1\<lparr>v_new := (v_new s1)(c := v_new s1 t),
                        v_greedy := (v_greedy s1)(c := v_greedy s1 t)\<rparr>"
    using s2 ext tr by (simp add: T_cell_exterior c_def cs_def)
  have c_final: "v_new st c = v_new s2 c \<and> v_greedy st c = v_greedy s2 c"
    using T_loop_other[OF s3] nth_not_in_drop[OF dist] n by (simp add: c_def cs_def)
  show ?thesis
  proof (cases "t = c")
    case True
    then show ?thesis by (simp add: t_def c_def cs_def)
  next
    case False
    have "t \<in> set (take n cs)"
    proof -
      have "t = (0, 0, 0, 0) \<or> t \<in> set (take n cs)"
        using last_interior_mem[of og "take n cs" "(0, 0, 0, 0)"]
        by (simp add: t_def tracked_before_def cs_def)
      moreover have "(0, 0, 0, 0) \<in> set (take n cs)" if "t = (0, 0, 0, 0)"
      proof -
        have "cells og \<noteq> []" using n by auto
        then have "cs ! 0 = (0, 0, 0, 0)" using cells_first[of og] by (simp add: cs_def)
        moreover have "n \<noteq> 0"
        proof
          assume "n = 0"
          then have "c = (0, 0, 0, 0)" using \<open>cs ! 0 = (0, 0, 0, 0)\<close> by (simp add: c_def)
          then show False using False that by simp
        qed
        ultimately show ?thesis using n by (auto simp: in_set_conv_nth cs_def intro!: exI[of _ 0])
      qed
      ultimately show ?thesis by auto
    qed
    then have "t \<notin> set (drop (Suc n) cs)"
      using take_not_in_rest[OF dist] n by (simp add: cs_def)
    then have "v_new st t = v_new s2 t \<and> v_greedy st t = v_greedy s2 t"
      using T_loop_other[OF s3] by simp
    then show ?thesis
      using c_final False by (simp add: s2_eq t_def[symmetric] c_def[symmetric] cs_def[symmetric])
  qed
qed

lemma T_run_post_herd:
  assumes run: "T_run minimize uninit v og = Inr st"
    and c: "c \<in> set (cells og)"
    and ph: "post_herd og c"
  shows "v_new st c = 0 \<and> v_greedy st c = (0, 0) \<and> c \<notin> set (opt_calls st)"
proof -
  from c obtain n where n: "n < length (cells og)" and cn: "cells og ! n = c"
    by (auto simp: in_set_conv_nth)
  from run n obtain s1 s2 where
    s1: "T_loop minimize og v (take n (cells og)) (T_init uninit) = Inr s1"
    and s2: "T_cell minimize og v c s1 = Inr s2"
    and s3: "T_loop minimize og v (drop (Suc n) (cells og)) s2 = Inr st"
    unfolding T_run_def using T_loop_split cn by blast
  have "v_new s2 c = 0 \<and> v_greedy s2 c = (0, 0)"
    using s2 ph by (auto simp: T_cell_post_herd)
  moreover have "v_new st c = v_new s2 c \<and> v_greedy st c = v_greedy s2 c"
    using T_loop_other[OF s3] nth_not_in_drop[OF distinct_cells n] cn by simp
  moreover have "opt_calls st = filter (interior og) (cells og)"
    using T_loop_opt_calls[of minimize og v "cells og" "T_init uninit" st] run
    by (simp add: T_run_def T_init_def)
  moreover have "\<not> interior og c" using ph cell_kinds(4) by blast
  ultimately show ?thesis by simp
qed

lemma T_run_interior:
  assumes run: "T_run minimize uninit v og = Inr st"
    and c: "c \<in> set (cells og)"
    and int: "interior og c"
  shows "minimize (\<lambda>x. obj_func og x (bellman og c) v) (0, 1) bds = Inr (v_greedy st c, v_new st c)"
proof -
  from c obtain n where n: "n < length (cells og)" and cn: "cells og ! n = c"
    by (auto simp: in_set_conv_nth)
  from run n obtain s1 s2 where
    s1: "T_loop minimize og v (take n (cells og)) (T_init uninit) = Inr s1"
    and s2: "T_cell minimize og v c s1 = Inr s2"
    and s3: "T_loop minimize og v (drop (Suc n) (cells og)) s2 = Inr st"
    unfolding T_run_def using T_loop_split cn by blast
  have "minimize (\<lambda>x. obj_func og x (bellman og c) v) (0, 1) bds = Inr (v_greedy s2 c, v_new s2 c)"
    using s2 int by (auto simp: T_cell_interior minimize_wrap_def Let_def split: sum.splits)
  moreover have "v_new st c = v_new s2 c \<and> v_greedy st c = v_greedy s2 c"
    using T_loop_other[OF s3] nth_not_in_drop[OF distinct_cells n] cn by simp
  ultimately show ?thesis by simp
qed

lemma T_Inr_iff:
  "T minimize uninit v og = Inr r \<longleftrightarrow>
     (\<exists>st. T_run minimize uninit v og = Inr st \<and> r = (v_greedy st, v_new st))"
  by (auto simp: T_def split: sum.splits)

subsection \<open>A sweep over the grid of two points per axis\<close>

lemma Model_init_og2: "Model_init unit_cost identity_transition 2 = Inr og2"
  by (simp add: Model_init_def linspace_def og2_def Let_def upt_conv_Cons numeral_2_eq_2)

lemma cells_og2:
  "cells og2 =
    [(0, 0, 0, 0), (0, 0, 0, 1), (0, 0, 1, 0), (0, 0, 1, 1),
     (0, 1, 0, 0), (0, 1, 0, 1), (0, 1, 1, 0), (0, 1, 1, 1),
     (1, 0, 0, 0), (1, 0, 0, 1), (1, 0, 1, 0), (1, 0, 1, 1),
     (1, 1, 0, 0), (1, 1, 0, 1), (1, 1, 1, 0), (1, 1, 1, 1)]"
  by (simp add: cells_def og2_def upt_conv_Cons numeral_2_eq_2)

lemma og2_kinds:
  "post_herd og2 (0, 0, 0, 0)" "exterior og2 (0, 0, 0, Suc 0)"
  "interior og2 (0, 0, Suc 0, 0)"  "exterior og2 (0, 0, Suc 0, Suc 0)"
  "exterior og2 (0, Suc 0, 0, 0)" "exterior og2 (0, Suc 0, 0, Suc 0)"
  "exterior og2 (0, Suc 0, Suc 0, 0)" "exterior og2 (0, Suc 0, Suc 0, Suc 0)"
  "exterior og2 (Suc 0, 0, 0, 0)" "exterior og2 (Suc 0, 0, 0, Suc 0)"
  "exterior og2 (Suc 0, 0, Suc 0, 0)" "exterior og2 (Suc 0, 0, Suc 0, Suc 0)"
  "exterior og2 (Suc 0, Suc 0, 0, 0)" "exterior og2 (Suc 0, Suc 0, 0, Suc 0)"
  "exterior og2 (Suc 0, Suc 0, Suc 0, 0)" "exterior og2 (Suc 0, Suc 0, Suc 0, Suc 0)"
  by (simp_all add: post_herd_def exterior_def interior_def within_bound_def bellman_def
      np_sum_axis0_def np_sum_all_def vec_defs og2_def P_par_def herd_threshold_def)

lemma obj_og2:
  "obj_func og2 x (bellman og2 (0, 0, Suc 0, 0)) zeros = Inr 1"
  by (simp add: obj_func_def og2_def bellman_def identity_transition_def unit_cost_def
      RegularGridInterpolator_def evaluate_linear_def zeros_def Let_def dt_def)


lemma minimize_og2:
  "minimize_wrap minimize_at_start (obj_func og2) bds (bellman og2 (0, 0, Suc 0, 0), zeros)
     = Inr ((1 / 10000, 1), 1)"
proof -
  have "clip (0, 1) bds = (1 / 10000, 1)"
    by (simp add: clip_def bds_def L_max_def)
  then show ?thesis
    by (simp add: minimize_wrap_def minimize_at_start_def Let_def obj_og2)
qed

lemma T_run_og2:
  "\<exists>st. T_run minimize_at_start zeros zeros og2 = Inr st
     \<and> v_new st (0, 0, 0, 0) = 0 \<and> v_new st (0, 0, 0, Suc 0) = 0 \<and> v_new st (0, 0, Suc 0, 0) = 1
     \<and> v_new st (0, 0, Suc 0, Suc 0) = 1 \<and> v_new st (Suc 0, Suc 0, Suc 0, Suc 0) = 1
     \<and> v_greedy st (0, 0, 0, 0) = (0, 0) \<and> v_greedy st (0, 0, 0, Suc 0) = (0, 0)
     \<and> v_greedy st (0, 0, Suc 0, 0) = (1 / 10000, 1)"
  by (simp add: T_run_def cells_og2 T_init_def og2_kinds T_cell_exterior T_cell_post_herd
      T_cell_interior minimize_og2)

lemma T_og2:
  "\<exists>vg vn. T minimize_at_start zeros zeros og2 = Inr (vg, vn)
     \<and> vn (0, 0, 0, 0) = 0 \<and> vn (0, 0, 0, Suc 0) = 0 \<and> vn (0, 0, Suc 0, 0) = 1
     \<and> vn (0, 0, Suc 0, Suc 0) = 1 \<and> vn (Suc 0, Suc 0, Suc 0, Suc 0) = 1
     \<and> vg (0, 0, 0, 0) = (0, 0) \<and> vg (0, 0, 0, Suc 0) = (0, 0)
     \<and> vg (0, 0, Suc 0, 0) = (1 / 10000, 1)"
proof -
  from T_run_og2 obtain st where "T_run minimize_at_start zeros zeros og2 = Inr st
     \<and> v_new st (0, 0, 0, 0) = 0 \<and> v_new st (0, 0, 0, Suc 0) = 0 \<and> v_new st (0, 0, Suc 0, 0) = 1
     \<and> v_new st (0, 0, Suc 0, Suc 0) = 1 \<and> v_new st (Suc 0, Suc 0, Suc 0, Suc 0) = 1
     \<and> v_greedy st (0, 0, 0, 0) = (0, 0) \<and> v_greedy st (0, 0, 0, Suc 0) = (0, 0)
     \<and> v_greedy st (0, 0, Suc 0, 0) = (1 / 10000, 1)" ..
  then show ?thesis by (simp add: T_def)
qed

lemma og2_interior:
  "\<not> interior og2 (0, 0, 0, 0)" "\<not> interior og2 (0, 0, 0, Suc 0)"
  "interior og2 (0, 0, Suc 0, 0)" "\<not> interior og2 (0, 0, Suc 0, Suc 0)"
  "\<not> interior og2 (0, Suc 0, 0, 0)" "\<not> interior og2 (0, Suc 0, 0, Suc 0)"
  "\<not> interior og2 (0, Suc 0, Suc 0, 0)" "\<not> interior og2 (0, Suc 0, Suc 0, Suc 0)"
  "\<not> interior og2 (Suc 0, 0, 0, 0)" "\<not> interior og2 (Suc 0, 0, 0, Suc 0)"
  "\<not> interior og2 (Suc 0, 0, Suc 0, 0)" "\<not> interior og2 (Suc 0, 0, Suc 0, Suc 0)"
  "\<not> interior og2 (Suc 0, Suc 0, 0, 0)" "\<not> interior og2 (Suc 0, Suc 0, 0, Suc 0)"
  "\<not> interior og2 (Suc 0, Suc 0, Suc 0, 0)" "\<not> interior og2 (Suc 0, Suc 0, Suc 0, Suc 0)"
  by (simp_all add: interior_def within_bound_def bellman_def
      np_sum_axis0_def np_sum_all_def vec_defs og2_def P_par_def herd_threshold_def)

lemma take_cells_og2:
  "take 1 (cells og2) = [(0, 0, 0, 0)]"
  "take 3 (cells og2) = [(0, 0, 0, 0), (0, 0, 0, 1), (0, 0, 1, 0)]"
  by (simp_all add: cells_og2)

lemma tracked_before_og2:
  "tracked_before og2 1 = (0, 0, 0, 0)" "tracked_before og2 3 = (0, 0, 1, 0)"
  unfolding tracked_before_def take_cells_og2 by (simp_all add: og2_interior)

subsection \<open>Exterior and post-herd cells\<close>

lemma tracked_before_Suc:
  assumes "k < length (cells og)"
  shows "tracked_before og (Suc k)
       = (if interior og (cells og ! k) then cells og ! k else tracked_before og k)"
  using assms by (simp add: tracked_before_def take_Suc_conv_app_nth last_interior_snoc)

text \<open>
  C1 (as amended).  In a sweep that returns, every exterior cell (one whose column sums
  violate the population bound) holds the value and the policy of the tracked cell: the
  interior cell optimized most recently before it in the traversal order (susceptible-young
  outermost, then susceptible-old, infected-young, infected-old), and cell \<open>(0, 0, 0, 0)\<close>
  when no interior cell comes before it.  Post-herd cells do not move the tracked index.
\<close>

theorem exterior_inherits_tracked:
  assumes "T minimize uninit v og = Inr (vg, vn)"
    and "n < length (cells og)"
    and "exterior og (cells og ! n)"
  shows "vn (cells og ! n) = vn (tracked_before og n)
       \<and> vg (cells og ! n) = vg (tracked_before og n)
       \<and> ((tracked_before og n = (0, 0, 0, 0) \<and> (\<forall>k < n. \<not> interior og (cells og ! k)))
          \<or> (\<exists>m < n. tracked_before og n = cells og ! m \<and> interior og (cells og ! m)
                \<and> (\<forall>k. m < k \<and> k < n \<longrightarrow> \<not> interior og (cells og ! k))))
       \<and> (\<forall>k. k < length (cells og) \<and> post_herd og (cells og ! k)
              \<longrightarrow> tracked_before og (Suc k) = tracked_before og k)"
proof -
  from assms(1) obtain st where st: "T_run minimize uninit v og = Inr st"
    and vg: "vg = v_greedy st" and vn: "vn = v_new st"
    by (auto simp: T_Inr_iff)
  have copy: "vn (cells og ! n) = vn (tracked_before og n)
      \<and> vg (cells og ! n) = vg (tracked_before og n)"
    using T_run_exterior[OF st assms(2,3)] by (simp add: vg vn)
  have len: "length (take n (cells og)) = n" using assms(2) by simp
  have "(tracked_before og n = (0, 0, 0, 0) \<and> (\<forall>k < n. \<not> interior og (cells og ! k)))
          \<or> (\<exists>m < n. tracked_before og n = cells og ! m \<and> interior og (cells og ! m)
                \<and> (\<forall>k. m < k \<and> k < n \<longrightarrow> \<not> interior og (cells og ! k)))"
    using last_interior_cases[of og "take n (cells og)" "(0, 0, 0, 0)"]
    unfolding tracked_before_def len by (auto simp: nth_take)
  moreover have "\<forall>k. k < length (cells og) \<and> post_herd og (cells og ! k)
              \<longrightarrow> tracked_before og (Suc k) = tracked_before og k"
    using cell_kinds(4) by (auto simp: tracked_before_Suc)
  ultimately show ?thesis using copy by blast
qed

theorem exterior_inherits_tracked_witness:
  "\<exists>vg vn. T minimize_at_start zeros zeros og2 = Inr (vg, vn)
     \<and> 3 < length (cells og2) \<and> exterior og2 (cells og2 ! 3)
     \<and> tracked_before og2 3 = (0, 0, 1, 0)
     \<and> vn (cells og2 ! 3) = vn (tracked_before og2 3)
     \<and> vg (cells og2 ! 3) = vg (tracked_before og2 3)
     \<and> 0 < length (cells og2) \<and> post_herd og2 (cells og2 ! 0)
     \<and> tracked_before og2 (Suc 0) = tracked_before og2 0"
proof -
  from T_og2 obtain vg vn where T: "T minimize_at_start zeros zeros og2 = Inr (vg, vn)"
    by blast
  have n: "3 < length (cells og2)" by (simp add: cells_og2)
  have e: "exterior og2 (cells og2 ! 3)" by (simp add: cells_og2 og2_kinds)
  have p: "0 < length (cells og2) \<and> post_herd og2 (cells og2 ! 0)"
    by (simp add: cells_og2 og2_kinds)
  have "vn (cells og2 ! 3) = vn (tracked_before og2 3)
      \<and> vg (cells og2 ! 3) = vg (tracked_before og2 3)
      \<and> tracked_before og2 (Suc 0) = tracked_before og2 0"
    using exterior_inherits_tracked[OF T n e] p by simp
  then show ?thesis
    using T n e p tracked_before_og2(2) by (intro exI[of _ vg] exI[of _ vn]) simp
qed

text \<open>
  The claim as first stated gives every exterior cell the value of an optimized interior
  cell.  On the grid of two points per axis the second cell of the traversal is exterior
  and no interior cell comes before it: it holds value 0 and policy \<open>(0, 0)\<close>, copied from
  the post-herd cell \<open>(0, 0, 0, 0)\<close>, while the only interior cell of that grid holds
  value 1 and policy \<open>(1e-4, 1)\<close>.
\<close>

theorem exterior_before_interior_counterexample:
  "exterior og2 (0, 0, 0, 1)
   \<and> take 2 (cells og2) = [(0, 0, 0, 0), (0, 0, 0, 1)]
   \<and> filter (interior og2) (cells og2) = [(0, 0, 1, 0)]
   \<and> value_at (T minimize_at_start zeros zeros og2) (0, 0, 0, 1) = Inr 0
   \<and> value_at (T minimize_at_start zeros zeros og2) (0, 0, 1, 0) = Inr 1
   \<and> policy_at (T minimize_at_start zeros zeros og2) (0, 0, 0, 1) = Inr (0, 0)
   \<and> policy_at (T minimize_at_start zeros zeros og2) (0, 0, 1, 0) = Inr (1 / 10000, 1)"
proof -
  from T_og2 obtain vg vn where T: "T minimize_at_start zeros zeros og2 = Inr (vg, vn)
     \<and> vn (0, 0, 0, 0) = 0 \<and> vn (0, 0, 0, Suc 0) = 0 \<and> vn (0, 0, Suc 0, 0) = 1
     \<and> vn (0, 0, Suc 0, Suc 0) = 1 \<and> vn (Suc 0, Suc 0, Suc 0, Suc 0) = 1
     \<and> vg (0, 0, 0, 0) = (0, 0) \<and> vg (0, 0, 0, Suc 0) = (0, 0)
     \<and> vg (0, 0, Suc 0, 0) = (1 / 10000, 1)"
    by blast
  have "filter (interior og2) (cells og2) = [(0, 0, 1, 0)]"
    by (simp add: cells_og2 og2_interior)
  moreover have "take 2 (cells og2) = [(0, 0, 0, 0), (0, 0, 0, 1)]"
    by (simp add: cells_og2)
  ultimately show ?thesis
    using T by (simp add: value_at_def policy_at_def og2_kinds)
qed

text \<open>
  C2.  In a sweep that returns, every cell of the grid that satisfies the population bound
  and whose four state entries add up to less than \<open>1 - herd_threshold\<close> holds value 0 and
  the zero policy, and the sweep does not call the optimizer at it.
\<close>

theorem post_herd_zero:
  assumes "T_run minimize uninit v og = Inr st"
    and "c \<in> set (cells og)"
    and "post_herd og c"
  shows "T minimize uninit v og = Inr (v_greedy st, v_new st)
       \<and> v_new st c = 0 \<and> v_greedy st c = (0, 0) \<and> c \<notin> set (opt_calls st)"
  using T_run_post_herd[OF assms] assms(1) by (simp add: T_def)

theorem post_herd_zero_witness:
  "\<exists>st. T_run minimize_at_start zeros zeros og2 = Inr st
     \<and> (0, 0, 0, 0) \<in> set (cells og2) \<and> post_herd og2 (0, 0, 0, 0)
     \<and> T minimize_at_start zeros zeros og2 = Inr (v_greedy st, v_new st)
     \<and> v_new st (0, 0, 0, 0) = 0 \<and> v_greedy st (0, 0, 0, 0) = (0, 0)
     \<and> (0, 0, 0, 0) \<notin> set (opt_calls st)"
proof -
  from T_run_og2 obtain st where st: "T_run minimize_at_start zeros zeros og2 = Inr st"
    by blast
  have c: "(0, 0, 0, 0) \<in> set (cells og2)" by (simp add: cells_og2)
  have "T minimize_at_start zeros zeros og2 = Inr (v_greedy st, v_new st)
       \<and> v_new st (0, 0, 0, 0) = 0 \<and> v_greedy st (0, 0, 0, 0) = (0, 0)
       \<and> (0, 0, 0, 0) \<notin> set (opt_calls st)"
    by (rule post_herd_zero[OF st c og2_kinds(1)])
  then show ?thesis
    using st c og2_kinds(1) by (intro exI[of _ st]) simp
qed

subsection \<open>The interpolator of the source\<close>

lemma evaluate_linear_lerp:
  "evaluate_linear values [(i, t0), (j, t1), (k, t2), (l, t3)] =
     lerp t0
       (lerp t1
         (lerp t2 (lerp t3 (values (i, j, k, l)) (values (i, j, k, l + 1)))
                  (lerp t3 (values (i, j, k + 1, l)) (values (i, j, k + 1, l + 1))))
         (lerp t2 (lerp t3 (values (i, j + 1, k, l)) (values (i, j + 1, k, l + 1)))
                  (lerp t3 (values (i, j + 1, k + 1, l))
                           (values (i, j + 1, k + 1, l + 1)))))
       (lerp t1
         (lerp t2 (lerp t3 (values (i + 1, j, k, l)) (values (i + 1, j, k, l + 1)))
                  (lerp t3 (values (i + 1, j, k + 1, l))
                           (values (i + 1, j, k + 1, l + 1))))
         (lerp t2 (lerp t3 (values (i + 1, j + 1, k, l))
                           (values (i + 1, j + 1, k, l + 1)))
                  (lerp t3 (values (i + 1, j + 1, k + 1, l))
                           (values (i + 1, j + 1, k + 1, l + 1)))))"
  by (simp add: evaluate_linear_def lerp_def algebra_simps)

text \<open>
  The cell that the interpolator locates on an axis: \<open>searchsorted\<close> splits a sorted axis
  into the points below the coordinate and the points at or above it, so the index found
  has the coordinate between its two grid points, whenever the axis has at least two points
  and the coordinate lies between its ends.  The axes that \<open>Model_init\<close> builds are sorted.
\<close>

lemma searchsorted_split:
  assumes "sorted grid"
  shows "(\<forall>j < searchsorted grid x. grid ! j < x)
       \<and> (\<forall>j. searchsorted grid x \<le> j \<and> j < length grid \<longrightarrow> x \<le> grid ! j)"
  using assms
proof (induction grid)
  case Nil
  then show ?case by (simp add: searchsorted_def)
next
  case (Cons a grid)
  then have IH: "(\<forall>j < searchsorted grid x. grid ! j < x)
       \<and> (\<forall>j. searchsorted grid x \<le> j \<and> j < length grid \<longrightarrow> x \<le> grid ! j)"
    and a: "\<forall>g \<in> set grid. a \<le> g"
    by simp_all
  show ?case
  proof (cases "a < x")
    case True
    then have k: "searchsorted (a # grid) x = Suc (searchsorted grid x)"
      by (simp add: searchsorted_def)
    show ?thesis
      unfolding k using IH True by (auto simp: nth_Cons split: nat.splits)
  next
    case False
    then have "filter (\<lambda>g. g < x) grid = []"
      using a by (auto simp: filter_empty_conv)
    then have k: "searchsorted (a # grid) x = 0"
      using False by (simp add: searchsorted_def)
    have "x \<le> grid ! j" if "j < length grid" for j
    proof -
      have "a \<le> grid ! j" using a that by simp
      then show ?thesis using False by simp
    qed
    then show ?thesis
      unfolding k using False by (auto simp: nth_Cons split: nat.splits)
  qed
qed

lemma find_indices_encloses:
  assumes "sorted grid" and "2 \<le> length grid" and "hd grid \<le> x" and "x \<le> last grid"
  shows "\<exists>i t. find_indices grid x = (i, t) \<and> i + 1 < length grid
           \<and> grid ! i \<le> x \<and> x \<le> grid ! (i + 1)
           \<and> t = (x - grid ! i) / (grid ! (i + 1) - grid ! i)"
proof -
  define k where "k = searchsorted grid x"
  define n where "n = length grid"
  have n: "2 \<le> n" using assms(2) by (simp add: n_def)
  have lo: "\<forall>j < k. grid ! j < x" and hi: "\<forall>j. k \<le> j \<and> j < n \<longrightarrow> x \<le> grid ! j"
    using searchsorted_split[OF assms(1), of x] by (simp_all add: k_def n_def)
  have ne: "grid \<noteq> []" using assms(2) by auto
  have h: "grid ! 0 \<le> x" using assms(3) ne by (simp add: hd_conv_nth)
  have l: "x \<le> grid ! (n - 1)" using assms(4) ne by (simp add: last_conv_nth n_def)
  have kn: "k < n"
  proof (rule ccontr)
    assume "\<not> k < n"
    then have "grid ! (n - 1) < x" using lo n by simp
    then show False using l by simp
  qed
  define i where "i = (if k = 0 then 0 else k - 1)"
  have idx: "nat (if (if int k - 1 < 0 then 0 else int k - 1) > int n - 2 then int n - 2
                   else (if int k - 1 < 0 then 0 else int k - 1)) = i"
    using kn n by (auto simp: i_def)
  have fi: "find_indices grid x = (i, (x - grid ! i) / (grid ! (i + 1) - grid ! i))"
    unfolding find_indices_def Let_def k_def[symmetric] n_def[symmetric] idx by simp
  have "i + 1 < n" using kn n by (simp add: i_def)
  moreover have "grid ! i \<le> x"
  proof (cases "k = 0")
    case True
    then show ?thesis using h by (simp add: i_def)
  next
    case False
    then have "grid ! (k - 1) < x" using lo by simp
    then show ?thesis using False by (simp add: i_def)
  qed
  moreover have "x \<le> grid ! (i + 1)"
  proof (cases "k = 0")
    case True
    then show ?thesis using hi n by (simp add: i_def)
  next
    case False
    then show ?thesis using hi kn by (simp add: i_def)
  qed
  ultimately show ?thesis using fi by (simp add: n_def)
qed


lemma linspace_sorted:
  assumes "linspace a b num = Inr xs" and "a \<le> b"
  shows "sorted xs"
proof -
  define n where "n = nat num"
  define step where "step = (b - a) / real (n - 1)"
  define ys where "ys = map (\<lambda>i. real i * step + a) [0..<n]"
  have xs: "xs = (if 1 < n then ys[n - 1 := b] else ys)"
    using assms(1) by (auto simp: linspace_def Let_def n_def ys_def step_def split: if_splits)
  have step: "0 \<le> step" using assms(2) by (simp add: step_def)
  have ys_sorted: "sorted ys"
    unfolding sorted_iff_nth_mono
  proof (intro allI impI)
    fix i j
    assume "i \<le> j" and "j < length ys"
    then have "real i * step \<le> real j * step"
      using step by (intro mult_right_mono) simp_all
    then show "ys ! i \<le> ys ! j"
      using \<open>i \<le> j\<close> \<open>j < length ys\<close> by (simp add: ys_def)
  qed
  have "ys[n - 1 := b] = ys" if "1 < n"
  proof -
    have "ys ! (n - 1) = real (n - 1) * step + a" using that by (simp add: ys_def)
    also have "\<dots> = b" using that by (simp add: step_def)
    finally show ?thesis by (metis list_update_id)
  qed
  then show ?thesis using ys_sorted by (simp add: xs)
qed

lemma Model_init_sorted:
  assumes "Model_init u f grid_size = Inr og"
  shows "sorted (gridS og)" and "sorted (gridI og)"
proof -
  from assms obtain gS gI where gS: "linspace (1 / 10000) 1 grid_size = Inr gS"
    and gI: "linspace (1 / 10000) (1 / 2) grid_size = Inr gI"
    and og: "og = \<lparr>u_fn = u, f_fn = f, gridS = gS, gridI = gI\<rparr>"
    by (auto simp: Model_init_def split: sum.splits)
  show "sorted (gridS og)" using linspace_sorted[OF gS] by (simp add: og)
  show "sorted (gridI og)" using linspace_sorted[OF gI] by (simp add: og)
qed

subsection \<open>Interior cells: initial guess and box\<close>

lemma T_interior:
  assumes "T minimize uninit v og = Inr (vg, vn)"
    and "c \<in> set (cells og)"
    and "interior og c"
  shows "minimize (\<lambda>x. obj_func og x (bellman og c) v) (0, 1) bds = Inr (vg c, vn c)"
proof -
  from assms(1) obtain st where st: "T_run minimize uninit v og = Inr st"
    and vg: "vg = v_greedy st" and vn: "vn = v_new st"
    by (auto simp: T_Inr_iff)
  show ?thesis using T_run_interior[OF st assms(2,3)] by (simp add: vg vn)
qed

lemma interior_og2_mem: "(0, 0, 1, 0) \<in> set (cells og2)"
  by (simp add: cells_og2)

lemma clip_guess: "clip (0, 1) bds = (1 / 10000, 1)"
  by (simp add: clip_def bds_def L_max_def)

lemma guess_outside_box: "\<not> in_box bds (0, 1)"
  by (simp add: in_box_def bds_def)

text \<open>
  C5 (as amended).  At every interior cell the bounded minimization is started from the
  fixed initial guess \<open>(0, 1)\<close>, whatever the cell, the value array and the previous
  iterate.  The guess is not in the control box: its projection onto the box is the corner
  made of the lower bound of the first component and the upper bound \<open>L_max\<close> of the
  second.
\<close>

theorem fixed_initial_guess:
  assumes "T minimize uninit v og = Inr (vg, vn)"
    and "c \<in> set (cells og)"
    and "interior og c"
  shows "minimize_wrap minimize (obj_func og) bds (bellman og c, v) = Inr (vg c, vn c)
       \<and> minimize_wrap minimize (obj_func og) bds (bellman og c, v)
           = minimize (\<lambda>x. obj_func og x (bellman og c) v) (0, 1) bds
       \<and> clip (0, 1) bds = (fst (fst bds), snd (snd bds))
       \<and> snd (snd bds) = snd L_max"
proof -
  have "minimize_wrap minimize (obj_func og) bds (bellman og c, v)
           = minimize (\<lambda>x. obj_func og x (bellman og c) v) (0, 1) bds"
    by (simp add: minimize_wrap_def Let_def split: sum.splits)
  then show ?thesis
    using T_interior[OF assms] clip_guess by (simp add: bds_def L_max_def)
qed

theorem fixed_initial_guess_witness:
  "\<exists>vg vn. T minimize_at_start zeros zeros og2 = Inr (vg, vn)
     \<and> (0, 0, 1, 0) \<in> set (cells og2) \<and> interior og2 (0, 0, 1, 0)
     \<and> minimize_wrap minimize_at_start (obj_func og2) bds (bellman og2 (0, 0, 1, 0), zeros)
          = Inr (vg (0, 0, 1, 0), vn (0, 0, 1, 0))
     \<and> minimize_wrap minimize_at_start (obj_func og2) bds (bellman og2 (0, 0, 1, 0), zeros)
          = minimize_at_start (\<lambda>x. obj_func og2 x (bellman og2 (0, 0, 1, 0)) zeros) (0, 1) bds"
proof -
  from T_og2 obtain vg vn where T: "T minimize_at_start zeros zeros og2 = Inr (vg, vn)"
    by blast
  have i: "interior og2 (0, 0, 1, 0)" by (simp add: og2_interior)
  have "minimize_wrap minimize_at_start (obj_func og2) bds (bellman og2 (0, 0, 1, 0), zeros)
          = Inr (vg (0, 0, 1, 0), vn (0, 0, 1, 0))
     \<and> minimize_wrap minimize_at_start (obj_func og2) bds (bellman og2 (0, 0, 1, 0), zeros)
          = minimize_at_start (\<lambda>x. obj_func og2 x (bellman og2 (0, 0, 1, 0)) zeros) (0, 1) bds"
    using fixed_initial_guess[OF T interior_og2_mem i] by blast
  then show ?thesis
    using T interior_og2_mem i by blast
qed

text \<open>
  The claim as first stated has the search start at \<open>(1e-4, control_max)\<close>, a corner of the
  box.  An optimizer that hands back the guess it receives shows the guess the source
  passes: \<open>(0, 1)\<close>, whose first component is below the lower bound.
\<close>

theorem initial_guess_counterexample:
  "minimize_wrap probe_guess (obj_func og2) bds (bellman og2 (0, 0, 1, 0), zeros) = Inr ((0, 1), 0)
   \<and> bds = ((1 / 10000, 7 / 10), (1 / 10000, 1))
   \<and> ((0, 1) :: vec2) \<noteq> (1 / 10000, 1)
   \<and> ((0, 1) :: vec2) \<noteq> (1 / 10000, 7 / 10)
   \<and> \<not> in_box bds (0, 1)"
  by (simp add: minimize_wrap_def probe_guess_def Let_def in_box_def bds_def L_max_def)

lemma clip_in_box: "in_box bds (clip x bds)"
  by (simp add: in_box_def clip_def bds_def L_max_def)

lemma minimize_at_start_in_box:
  "minimize_at_start g x0 bds = Inr (x, y) \<Longrightarrow> in_box bds x"
  by (auto simp: minimize_at_start_def Let_def clip_in_box split: sum.splits)

text \<open>
  C6 (as amended).  After a sweep that returns, with an optimizer that returns a control
  within the bounds it is given, the policy stored at every interior cell lies within
  \<open>[1e-4, L_max]\<close> componentwise; the policy stored at a post-herd cell is the zero vector,
  which is not in the box.
\<close>

theorem policy_in_box:
  assumes "T minimize uninit v og = Inr (vg, vn)"
    and "\<forall>g x0 x y. minimize g x0 bds = Inr (x, y) \<longrightarrow> in_box bds x"
    and "c \<in> set (cells og)"
  shows "(interior og c \<longrightarrow> in_box bds (vg c))
       \<and> (post_herd og c \<longrightarrow> vg c = (0, 0) \<and> \<not> in_box bds (vg c))"
proof -
  have "in_box bds (vg c)" if "interior og c"
    using T_interior[OF assms(1,3) that] assms(2) by blast
  moreover have "vg c = (0, 0) \<and> \<not> in_box bds (vg c)" if "post_herd og c"
  proof -
    from assms(1) obtain st where st: "T_run minimize uninit v og = Inr st"
      and vg: "vg = v_greedy st"
      by (auto simp: T_Inr_iff)
    have "vg c = (0, 0)" using T_run_post_herd[OF st assms(3) that] by (simp add: vg)
    then show ?thesis by (simp add: in_box_def bds_def)
  qed
  ultimately show ?thesis by blast
qed

theorem policy_in_box_witness:
  "\<exists>vg vn. T minimize_at_start zeros zeros og2 = Inr (vg, vn)
     \<and> (0, 0, 1, 0) \<in> set (cells og2) \<and> interior og2 (0, 0, 1, 0)
     \<and> in_box bds (vg (0, 0, 1, 0))
     \<and> (0, 0, 0, 0) \<in> set (cells og2) \<and> post_herd og2 (0, 0, 0, 0)
     \<and> vg (0, 0, 0, 0) = (0, 0) \<and> \<not> in_box bds (vg (0, 0, 0, 0))"
proof -
  from T_og2 obtain vg vn where T: "T minimize_at_start zeros zeros og2 = Inr (vg, vn)"
    by blast
  have i: "interior og2 (0, 0, 1, 0)" by (simp add: og2_interior)
  have m0: "(0, 0, 0, 0) \<in> set (cells og2)" by (simp add: cells_og2)
  have h: "\<forall>g x0 x y. minimize_at_start g x0 bds = Inr (x, y) \<longrightarrow> in_box bds x"
    using minimize_at_start_in_box by blast
  have "in_box bds (vg (0, 0, 1, 0))"
    using policy_in_box[OF T h interior_og2_mem] i by simp
  moreover have "vg (0, 0, 0, 0) = (0, 0) \<and> \<not> in_box bds (vg (0, 0, 0, 0))"
    using policy_in_box[OF T h m0] og2_kinds(1) by blast
  ultimately show ?thesis
    using T interior_og2_mem i m0 og2_kinds(1) by blast
qed

text \<open>
  The claim as first stated covers every cell within the population bound.  The first
  cell of the grid of two points per axis is within the bound and holds the policy
  \<open>(0, 0)\<close>, below the lower bound \<open>1e-4\<close>.
\<close>

theorem post_herd_policy_counterexample:
  "within_bound og2 (0, 0, 0, 0)
   \<and> policy_at (T minimize_at_start zeros zeros og2) (0, 0, 0, 0) = Inr (0, 0)
   \<and> \<not> in_box bds (0, 0)
   \<and> bds = ((1 / 10000, 7 / 10), (1 / 10000, 1))"
proof -
  from T_og2 obtain vg vn where T: "T minimize_at_start zeros zeros og2 = Inr (vg, vn)
     \<and> vn (0, 0, 0, 0) = 0 \<and> vn (0, 0, 0, Suc 0) = 0 \<and> vn (0, 0, Suc 0, 0) = 1
     \<and> vn (0, 0, Suc 0, Suc 0) = 1 \<and> vn (Suc 0, Suc 0, Suc 0, Suc 0) = 1
     \<and> vg (0, 0, 0, 0) = (0, 0) \<and> vg (0, 0, 0, Suc 0) = (0, 0)
     \<and> vg (0, 0, Suc 0, 0) = (1 / 10000, 1)"
    by blast
  have "within_bound og2 (0, 0, 0, 0)" using og2_kinds(1) by (simp add: post_herd_def)
  then show ?thesis using T by (simp add: policy_at_def in_box_def bds_def L_max_def)
qed

subsection \<open>The transition stays inside the grid\<close>

lemma clamp_range:
  assumes "d \<noteq> 0" and "lo \<le> hi"
  shows "\<exists>r. np_maximum (np_minimum (np_divide x d) hi) lo = Fin r \<and> lo \<le> r \<and> r \<le> hi"
  using assms by (simp add: np_divide_def)

lemma vclamp_range:
  assumes "fst d \<noteq> 0" and "snd d \<noteq> 0" and "lo \<le> hi"
  shows "\<exists>a b. vmaximum (vminimum (vdivide x d) hi) lo = (Fin a, Fin b)
           \<and> lo \<le> a \<and> a \<le> hi \<and> lo \<le> b \<and> b \<le> hi"
proof -
  obtain a where a: "np_maximum (np_minimum (np_divide (fst x) (fst d)) hi) lo = Fin a"
      "lo \<le> a" "a \<le> hi"
    using clamp_range[OF assms(1,3)] by blast
  obtain b where b: "np_maximum (np_minimum (np_divide (snd x) (snd d)) hi) lo = Fin b"
      "lo \<le> b" "b \<le> hi"
    using clamp_range[OF assms(2,3)] by blast
  show ?thesis
    using a b by (simp add: vmaximum_def vminimum_def vdivide_def)
qed

lemma dynamics_shape:
  "\<exists>ns ni nr.
     dynamics L st =
       (vmaximum (vminimum (vdivide ns (ssub 1 (D_clipped L st))) 1) (1 / 10000 + 1 / 100000),
        vmaximum (vminimum (vdivide ni (ssub 1 (D_clipped L st))) (1 / 2)) (1 / 10000 + 1 / 100000),
        vmaximum (vminimum (vdivide nr (ssub 1 (D_clipped L st))) 1) (1 / 10000 + 1 / 100000),
        D_clipped L st)"
  unfolding dynamics_def Let_def D_clipped_def death_increment_def fst_conv snd_conv by blast


lemma death_increment_small:
  assumes "0 \<le> fst L" "fst L \<le> 1" "0 \<le> snd L" "snd L \<le> 1"
    and "0 \<le> fst (fst st)" "fst (fst st) \<le> 1" "0 \<le> snd (fst st)" "snd (fst st) \<le> 1"
    and "0 \<le> fst (snd st)" "fst (snd st) \<le> 1" "0 \<le> snd (snd st)" "snd (snd st) \<le> 1"
  shows "fst (smul dt (death_increment L st)) < 1" and "snd (smul dt (death_increment L st)) < 1"
proof -
  define Ly Lo Sy So Iy Io where "Ly = fst L" and "Lo = snd L" and "Sy = fst (fst st)"
    and "So = snd (fst st)" and "Iy = fst (snd st)" and "Io = snd (snd st)"
  note defs = Ly_def Lo_def Sy_def So_def Iy_def Io_def
  have b: "0 \<le> Ly" "Ly \<le> 1" "0 \<le> Lo" "Lo \<le> 1" "0 \<le> Iy" "Iy \<le> 1" "0 \<le> Io" "Io \<le> 1"
    using assms by (simp_all add: defs)
  have y: "fst (smul dt (death_increment L st))
      = (634 / 1000000 / 18 + (Iy + Io) * (845 / 100000 / 18)) * Iy
        + (Ly / 100000) * (818 / 1000 - Iy)"
    by (simp add: death_increment_def phi_def indir_def np_sum_axis0_def vec_defs Let_def
        dt_def gamma_def alpha_L_def P_par_def defs)
  have o: "snd (smul dt (death_increment L st))
      = (845 / 100000 / 18 + (Iy + Io) * (1127 / 10000 / 18)) * Io
        + (Lo / 100000) * (182 / 1000 - Io)"
    by (simp add: death_increment_def phi_def indir_def np_sum_axis0_def vec_defs Let_def
        dt_def gamma_def alpha_L_def P_par_def defs)
  have cy: "634 / 1000000 / 18 + (Iy + Io) * (845 / 100000 / 18) \<le> 1 / 100"
    using b by argo
  have co: "845 / 100000 / 18 + (Iy + Io) * (1127 / 10000 / 18) \<le> 1 / 10"
    using b by argo
  have py: "(634 / 1000000 / 18 + (Iy + Io) * (845 / 100000 / 18)) * Iy \<le> (1 / 100) * 1"
    using cy b by (intro mult_mono) simp_all
  have po: "(845 / 100000 / 18 + (Iy + Io) * (1127 / 10000 / 18)) * Io \<le> (1 / 10) * 1"
    using co b by (intro mult_mono) simp_all
  have q: "(l / 100000) * (c - i) \<le> 1 / 100000"
    if "0 \<le> l" "l \<le> 1" "0 \<le> i" "c \<le> 1" for l c i :: real
  proof (cases "c - i \<le> 0")
    case True
    then have "(l / 100000) * (c - i) \<le> 0"
      using that by (simp add: mult_nonneg_nonpos)
    then show ?thesis by simp
  next
    case False
    then have "(l / 100000) * (c - i) \<le> (1 / 100000) * 1"
      using that by (intro mult_mono) simp_all
    then show ?thesis by simp
  qed
  have qy: "(Ly / 100000) * (818 / 1000 - Iy) \<le> (1 / 100000) * 1"
    using q[of Ly Iy "818 / 1000"] b by simp
  have qo: "(Lo / 100000) * (182 / 1000 - Io) \<le> (1 / 100000) * 1"
    using q[of Lo Io "182 / 1000"] b by simp
  show "fst (smul dt (death_increment L st)) < 1" using py qy unfolding y by linarith
  show "snd (smul dt (death_increment L st)) < 1" using po qo unfolding o by linarith
qed

lemma linspace_ends:
  assumes "linspace a b num = Inr xs" and "2 \<le> num"
  shows "length xs = nat num" and "hd xs = a" and "last xs = b"
proof -
  define n where "n = nat num"
  define ys where "ys = map (\<lambda>i. real i * ((b - a) / real (n - 1)) + a) [0..<n]"
  have n: "2 \<le> n" using assms(2) by (simp add: n_def)
  have xs: "xs = ys[n - 1 := b]"
    using assms n by (auto simp: linspace_def Let_def n_def ys_def split: if_splits)
  have len: "length ys = n" by (simp add: ys_def)
  show "length xs = nat num" by (simp add: xs len n_def)
  have "xs ! 0 = ys ! 0" using n by (simp add: xs)
  moreover have "ys ! 0 = a" using n by (simp add: ys_def)
  moreover have "xs \<noteq> []" using n len by (auto simp: xs)
  ultimately show "hd xs = a" by (simp add: hd_conv_nth)
  have "last xs = xs ! (n - 1)" using \<open>xs \<noteq> []\<close> len by (simp add: last_conv_nth xs)
  also have "\<dots> = b" using n len by (simp add: xs)
  finally show "last xs = b" .
qed

lemma Model_init_grids:
  assumes "Model_init u f grid_size = Inr og" and "2 \<le> grid_size"
  shows "length (gridS og) = nat grid_size" and "length (gridI og) = nat grid_size"
    and "hd (gridS og) = 1 / 10000" and "last (gridS og) = 1"
    and "hd (gridI og) = 1 / 10000" and "last (gridI og) = 1 / 2"
    and "u_fn og = u" and "f_fn og = f"
proof -
  from assms(1) obtain gS gI where gS: "linspace (1 / 10000) 1 grid_size = Inr gS"
    and gI: "linspace (1 / 10000) (1 / 2) grid_size = Inr gI"
    and og: "og = \<lparr>u_fn = u, f_fn = f, gridS = gS, gridI = gI\<rparr>"
    by (auto simp: Model_init_def split: sum.splits)
  show "length (gridS og) = nat grid_size" and "length (gridI og) = nat grid_size"
    and "hd (gridS og) = 1 / 10000" and "last (gridS og) = 1"
    and "hd (gridI og) = 1 / 10000" and "last (gridI og) = 1 / 2"
    and "u_fn og = u" and "f_fn og = f"
    using linspace_ends[OF gS assms(2)] linspace_ends[OF gI assms(2)] by (simp_all add: og)
qed

lemma dynamics_clamped_if:
  assumes "fst (smul dt (death_increment L st)) < 1" and "snd (smul dt (death_increment L st)) < 1"
  shows "\<exists>S_y S_o I_y I_o R D.
           dynamics L st = ((Fin S_y, Fin S_o), (Fin I_y, Fin I_o), R, D)
         \<and> 11 / 100000 \<le> S_y \<and> S_y \<le> 1 \<and> 11 / 100000 \<le> S_o \<and> S_o \<le> 1
         \<and> 11 / 100000 \<le> I_y \<and> I_y \<le> 1 / 2 \<and> 11 / 100000 \<le> I_o \<and> I_o \<le> 1 / 2"
proof -
  define d where "d = ssub 1 (D_clipped L st)"
  have d: "fst d \<noteq> 0" "snd d \<noteq> 0"
    using assms by (auto simp: d_def ssub_def D_clipped_def)
  obtain ns ni nr where dyn: "dynamics L st =
       (vmaximum (vminimum (vdivide ns d) 1) (1 / 10000 + 1 / 100000),
        vmaximum (vminimum (vdivide ni d) (1 / 2)) (1 / 10000 + 1 / 100000),
        vmaximum (vminimum (vdivide nr d) 1) (1 / 10000 + 1 / 100000),
        D_clipped L st)"
    using dynamics_shape[of L st] unfolding d_def by blast
  have lo1: "(1 / 10000 + 1 / 100000 :: real) \<le> 1" and lo2: "(1 / 10000 + 1 / 100000 :: real) \<le> 1 / 2"
    by simp_all
  obtain Sy So where S: "vmaximum (vminimum (vdivide ns d) 1) (1 / 10000 + 1 / 100000) = (Fin Sy, Fin So)"
      "1 / 10000 + 1 / 100000 \<le> Sy" "Sy \<le> 1" "1 / 10000 + 1 / 100000 \<le> So" "So \<le> 1"
    using vclamp_range[OF d lo1, of ns] by blast
  obtain Iy Io where I: "vmaximum (vminimum (vdivide ni d) (1 / 2)) (1 / 10000 + 1 / 100000) = (Fin Iy, Fin Io)"
      "1 / 10000 + 1 / 100000 \<le> Iy" "Iy \<le> 1 / 2" "1 / 10000 + 1 / 100000 \<le> Io" "Io \<le> 1 / 2"
    using vclamp_range[OF d lo2, of ni] by blast
  have "dynamics L st = ((Fin Sy, Fin So), (Fin Iy, Fin Io),
        vmaximum (vminimum (vdivide nr d) 1) (1 / 10000 + 1 / 100000), D_clipped L st)"
    using dyn S(1) I(1) by simp
  moreover have "11 / 100000 \<le> Sy \<and> Sy \<le> 1 \<and> 11 / 100000 \<le> So \<and> So \<le> 1
         \<and> 11 / 100000 \<le> Iy \<and> Iy \<le> 1 / 2 \<and> 11 / 100000 \<le> Io \<and> Io \<le> 1 / 2"
    using S(2-5) I(2-5) by simp
  ultimately show ?thesis by blast
qed

lemma obj_func_in_domain:
  assumes "f_fn og L st = ((Fin S_y, Fin S_o), (Fin I_y, Fin I_o), R, D)"
    and "2 \<le> length (gridS og)" and "2 \<le> length (gridI og)"
    and "hd (gridS og) \<le> S_y" "S_y \<le> last (gridS og)"
    and "hd (gridS og) \<le> S_o" "S_o \<le> last (gridS og)"
    and "hd (gridI og) \<le> I_y" "I_y \<le> last (gridI og)"
    and "hd (gridI og) \<le> I_o" "I_o \<le> last (gridI og)"
  shows "\<exists>r. obj_func og L st v = Inr r"
  using assms by (simp add: obj_func_def Let_def RegularGridInterpolator_def)

lemma sorted_between_ends:
  assumes "sorted g" and "i < length g"
  shows "hd g \<le> g ! i" and "g ! i \<le> last g"
proof -
  have ne: "g \<noteq> []" using assms(2) by auto
  have "g ! 0 \<le> g ! i" using assms by (simp add: sorted_iff_nth_mono)
  then show "hd g \<le> g ! i" using ne by (simp add: hd_conv_nth)
  have "g ! i \<le> g ! (length g - 1)" using assms by (simp add: sorted_iff_nth_mono)
  then show "g ! i \<le> last g" using ne by (simp add: last_conv_nth)
qed

lemma cells_indices:
  assumes "(i, j, k, l) \<in> set (cells og)"
  shows "i < length (gridS og)" "j < length (gridS og)" "k < length (gridI og)" "l < length (gridI og)"
  using assms by (simp_all add: cells_def)

lemma grid_state_range:
  assumes "Model_init u f grid_size = Inr og" and "2 \<le> grid_size" and "c \<in> set (cells og)"
  shows "0 \<le> fst (fst (bellman og c))" "fst (fst (bellman og c)) \<le> 1"
    "0 \<le> snd (fst (bellman og c))" "snd (fst (bellman og c)) \<le> 1"
    "0 \<le> fst (snd (bellman og c))" "fst (snd (bellman og c)) \<le> 1"
    "0 \<le> snd (snd (bellman og c))" "snd (snd (bellman og c)) \<le> 1"
proof -
  obtain i j k l where c: "c = (i, j, k, l)" by (cases c) auto
  note g = Model_init_grids[OF assms(1,2)] and s = Model_init_sorted[OF assms(1)]
  note ix = cells_indices[OF assms(3)[unfolded c]]
  have S: "1 / 10000 \<le> gridS og ! m \<and> gridS og ! m \<le> 1" if "m < length (gridS og)" for m
    using sorted_between_ends[OF s(1) that] by (simp add: g)
  have I: "1 / 10000 \<le> gridI og ! m \<and> gridI og ! m \<le> 1 / 2" if "m < length (gridI og)" for m
    using sorted_between_ends[OF s(2) that] by (simp add: g)
  show "0 \<le> fst (fst (bellman og c))" "fst (fst (bellman og c)) \<le> 1"
    "0 \<le> snd (fst (bellman og c))" "snd (fst (bellman og c)) \<le> 1"
    "0 \<le> fst (snd (bellman og c))" "fst (snd (bellman og c)) \<le> 1"
    "0 \<le> snd (snd (bellman og c))" "snd (snd (bellman og c)) \<le> 1"
    using S[OF ix(1)] S[OF ix(2)] I[OF ix(3)] I[OF ix(4)] by (simp_all add: c bellman_def)
qed

lemma objective_defined:
  assumes "0 \<le> fst L" "fst L \<le> 1" "0 \<le> snd L" "snd L \<le> 1"
    and "0 \<le> fst (fst st)" "fst (fst st) \<le> 1" "0 \<le> snd (fst st)" "snd (fst st) \<le> 1"
    and "0 \<le> fst (snd st)" "fst (snd st) \<le> 1" "0 \<le> snd (snd st)" "snd (snd st) \<le> 1"
    and "Model_init cost dynamics grid_size = Inr og" and "2 \<le> grid_size"
  shows "\<exists>r. obj_func og L st v = Inr r"
proof -
  obtain S_y S_o I_y I_o R D where
    dyn: "dynamics L st = ((Fin S_y, Fin S_o), (Fin I_y, Fin I_o), R, D)"
    and r: "11 / 100000 \<le> S_y" "S_y \<le> 1" "11 / 100000 \<le> S_o" "S_o \<le> 1"
       "11 / 100000 \<le> I_y" "I_y \<le> 1 / 2" "11 / 100000 \<le> I_o" "I_o \<le> 1 / 2"
    using dynamics_clamped_if[OF death_increment_small[OF assms(1-12)]] by blast
  note g = Model_init_grids[OF assms(13,14)]
  show ?thesis
  proof (rule obj_func_in_domain)
    show "f_fn og L st = ((Fin S_y, Fin S_o), (Fin I_y, Fin I_o), R, D)"
      using dyn by (simp add: g)
    show "2 \<le> length (gridS og)" "2 \<le> length (gridI og)"
      using assms(14) by (simp_all add: g)
    show "hd (gridS og) \<le> S_y" "S_y \<le> last (gridS og)"
      "hd (gridS og) \<le> S_o" "S_o \<le> last (gridS og)"
      "hd (gridI og) \<le> I_y" "I_y \<le> last (gridI og)"
      "hd (gridI og) \<le> I_o" "I_o \<le> last (gridI og)"
      using r by (simp_all add: g)
  qed
qed

subsection \<open>The continuation value of an interior cell\<close>

text \<open>
  The axes that \<open>Model_init\<close> builds are strictly increasing, so the smallest and the largest
  point of an axis are its first and its last, and two grid cells that both enclose a
  coordinate are neighbours that share it as a grid point.
\<close>

lemma linspace_strict:
  assumes "linspace a b num = Inr xs" and "a < b"
  shows "sorted_wrt (<) xs"
proof -
  define n where "n = nat num"
  define step where "step = (b - a) / real (n - 1)"
  define ys where "ys = map (\<lambda>i. real i * step + a) [0..<n]"
  have xs: "xs = (if 1 < n then ys[n - 1 := b] else ys)"
    using assms(1) by (auto simp: linspace_def Let_def n_def ys_def step_def split: if_splits)
  show ?thesis
  proof (cases "1 < n")
    case True
    then have step: "0 < step" using assms(2) by (simp add: step_def)
    have ys_sorted: "sorted_wrt (<) ys"
      unfolding sorted_wrt_iff_nth_less
    proof (intro allI impI)
      fix i j
      assume "i < j" and "j < length ys"
      then have "real i * step < real j * step"
        using step by simp
      then show "ys ! i < ys ! j"
        using \<open>i < j\<close> \<open>j < length ys\<close> by (simp add: ys_def)
    qed
    have "ys ! (n - 1) = real (n - 1) * step + a" using True by (simp add: ys_def)
    also have "\<dots> = b" using True by (simp add: step_def)
    finally have "ys[n - 1 := b] = ys" by (metis list_update_id)
    then show ?thesis using ys_sorted True by (simp add: xs)
  next
    case False
    then have "length xs \<le> 1" by (simp add: xs ys_def)
    then show ?thesis by (cases xs) auto
  qed
qed

lemma Model_init_strict:
  assumes "Model_init u f grid_size = Inr og"
  shows "sorted_wrt (<) (gridS og)" and "sorted_wrt (<) (gridI og)"
proof -
  from assms obtain gS gI where gS: "linspace (1 / 10000) 1 grid_size = Inr gS"
    and gI: "linspace (1 / 10000) (1 / 2) grid_size = Inr gI"
    and og: "og = \<lparr>u_fn = u, f_fn = f, gridS = gS, gridI = gI\<rparr>"
    by (auto simp: Model_init_def split: sum.splits)
  show "sorted_wrt (<) (gridS og)" using linspace_strict[OF gS] by (simp add: og)
  show "sorted_wrt (<) (gridI og)" using linspace_strict[OF gI] by (simp add: og)
qed

lemma sorted_Min_Max:
  fixes axis :: "real list"
  assumes "sorted axis" and "axis \<noteq> []"
  shows "Min (set axis) = hd axis" and "Max (set axis) = last axis"
proof -
  have b: "hd axis \<le> y \<and> y \<le> last axis" if "y \<in> set axis" for y
  proof -
    from that obtain i where "i < length axis" and "y = axis ! i"
      by (auto simp: in_set_conv_nth)
    then show ?thesis using sorted_between_ends[OF assms(1), of i] by simp
  qed
  show "Min (set axis) = hd axis"
    using assms(2) b by (intro Min_eqI) simp_all
  show "Max (set axis) = last axis"
    using assms(2) b by (intro Max_eqI) simp_all
qed

lemma in_domain_ends:
  assumes "sorted axis" and "2 \<le> length axis"
  shows "in_domain axis x \<longleftrightarrow> hd axis \<le> x \<and> x \<le> last axis"
proof -
  have ne: "axis \<noteq> []" using assms(2) by auto
  show ?thesis by (simp add: in_domain_def ne sorted_Min_Max[OF assms(1) ne])
qed

lemma encloses_in_domain:
  assumes "sorted axis" and "encloses axis i x"
  shows "in_domain axis x"
proof -
  have i: "i + 1 < length axis" and lo: "axis ! i \<le> x" and hi: "x \<le> axis ! (i + 1)"
    using assms(2) by (simp_all add: encloses_def)
  have "hd axis \<le> axis ! i" using sorted_between_ends(1)[OF assms(1), of i] i by simp
  moreover have "axis ! (i + 1) \<le> last axis"
    using sorted_between_ends(2)[OF assms(1), of "i + 1"] i by simp
  ultimately show ?thesis
    using in_domain_ends[OF assms(1), of x] i lo hi by simp
qed

text \<open>
  Interpolating in either of two cells that enclose the same coordinate gives the same
  value: the interpolation is continuous across the grid points.
\<close>

lemma axis_lerp_next:
  assumes "sorted_wrt (<) axis" and "encloses axis i x" and "encloses axis i' x" and "i < i'"
  shows "axis_lerp axis i x f = axis_lerp axis i' x f"
proof -
  have i: "i + 1 < length axis" and hi: "x \<le> axis ! (i + 1)"
    using assms(2) by (simp_all add: encloses_def)
  have i': "i' + 1 < length axis" and lo': "axis ! i' \<le> x"
    using assms(3) by (simp_all add: encloses_def)
  have less: "axis ! a < axis ! b" if "a < b" and "b < length axis" for a b
    using assms(1) that by (simp add: sorted_wrt_iff_nth_less)
  have eq: "i' = i + 1"
  proof (rule ccontr)
    assume "i' \<noteq> i + 1"
    then have "i + 1 < i'" using assms(4) by simp
    then have "axis ! (i + 1) < axis ! i'" using less i' by simp
    then show False using hi lo' by simp
  qed
  have x: "x = axis ! (i + 1)" using hi lo' eq by simp
  have "axis ! i < axis ! (i + 1)" using less i by simp
  then have w: "blend_weight axis i x = 1" by (simp add: blend_weight_def x)
  have w': "blend_weight axis (Suc i) x = 0" by (simp add: blend_weight_def x)
  show ?thesis by (simp add: axis_lerp_def lerp_def eq w w')
qed

lemma axis_lerp_unique:
  assumes "sorted_wrt (<) axis" and "encloses axis i x" and "encloses axis i' x"
  shows "axis_lerp axis i x f = axis_lerp axis i' x f"
proof -
  consider "i < i'" | "i = i'" | "i' < i" by linarith
  then show ?thesis
  proof cases
    case 1
    then show ?thesis using axis_lerp_next[OF assms] by simp
  next
    case 2
    then show ?thesis by simp
  next
    case 3
    then show ?thesis using axis_lerp_next[OF assms(1) assms(3) assms(2)] by simp
  qed
qed

lemma quadrilinear_unique:
  assumes "sorted_wrt (<) g0" "sorted_wrt (<) g1" "sorted_wrt (<) g2" "sorted_wrt (<) g3"
    and "encloses g0 i x0" "encloses g0 i' x0"
    and "encloses g1 j x1" "encloses g1 j' x1"
    and "encloses g2 k x2" "encloses g2 k' x2"
    and "encloses g3 l x3" "encloses g3 l' x3"
  shows "quadrilinear (g0, g1, g2, g3) v (i, j, k, l) (x0, x1, x2, x3)
       = quadrilinear (g0, g1, g2, g3) v (i', j', k', l') (x0, x1, x2, x3)"
proof -
  have a: "axis_lerp g0 i x0 f = axis_lerp g0 i' x0 f" for f
    using axis_lerp_unique[OF assms(1) assms(5,6)] .
  have b: "axis_lerp g1 j x1 f = axis_lerp g1 j' x1 f" for f
    using axis_lerp_unique[OF assms(2) assms(7,8)] .
  have c: "axis_lerp g2 k x2 f = axis_lerp g2 k' x2 f" for f
    using axis_lerp_unique[OF assms(3) assms(9,10)] .
  have d: "axis_lerp g3 l x3 f = axis_lerp g3 l' x3 f" for f
    using axis_lerp_unique[OF assms(4) assms(11,12)] .
  show ?thesis by (simp add: quadrilinear_def a b c d)
qed

lemma continuation_value_unique:
  assumes "sorted_wrt (<) (gridS og)" and "sorted_wrt (<) (gridI og)"
    and "continuation_value og v q r" and "continuation_value og v q r'"
  shows "r' = r"
proof -
  obtain x0 x1 x2 x3 where q: "q = (x0, x1, x2, x3)" by (cases q) auto
  from assms(3) obtain i j k l where
    e: "encloses (gridS og) i x0" "encloses (gridS og) j x1"
       "encloses (gridI og) k x2" "encloses (gridI og) l x3"
    and r: "r = quadrilinear (gridS og, gridS og, gridI og, gridI og) v (i, j, k, l) q"
    by (auto simp: continuation_value_def q)
  from assms(4) obtain i' j' k' l' where
    e': "encloses (gridS og) i' x0" "encloses (gridS og) j' x1"
       "encloses (gridI og) k' x2" "encloses (gridI og) l' x3"
    and r': "r' = quadrilinear (gridS og, gridS og, gridI og, gridI og) v (i', j', k', l') q"
    by (auto simp: continuation_value_def q)
  show ?thesis
    unfolding r r' q
    using quadrilinear_unique[OF assms(1) assms(1) assms(2) assms(2)
        e'(1) e(1) e'(2) e(2) e'(3) e(3) e'(4) e(4)] .
qed

text \<open>
  The interpolator of the source is this interpolation: the cell it locates encloses the
  query point, its weights are the blend weights of that cell, and its sum over the 16
  corners is the interpolation along the four axes in turn.  Outside the domain it raises.
\<close>

lemma find_indices_cell:
  assumes "sorted axis" and "2 \<le> length axis" and "in_domain axis x"
  shows "\<exists>i. encloses axis i x \<and> find_indices axis x = (i, blend_weight axis i x)"
proof -
  have "hd axis \<le> x" and "x \<le> last axis"
    using assms(3) in_domain_ends[OF assms(1,2)] by simp_all
  from find_indices_encloses[OF assms(1,2) this]
  show ?thesis by (auto simp: encloses_def blend_weight_def)
qed

lemma evaluate_linear_quadrilinear:
  "evaluate_linear v [(i, blend_weight g0 i x0), (j, blend_weight g1 j x1),
                      (k, blend_weight g2 k x2), (l, blend_weight g3 l x3)]
     = quadrilinear (g0, g1, g2, g3) v (i, j, k, l) (x0, x1, x2, x3)"
  by (simp add: evaluate_linear_lerp quadrilinear_def axis_lerp_def)

lemma interpolator_continuation:
  assumes "sorted_wrt (<) (gridS og)" and "sorted_wrt (<) (gridI og)"
    and "2 \<le> length (gridS og)" and "2 \<le> length (gridI og)"
    and "in_domain (gridS og) a" and "in_domain (gridS og) b"
    and "in_domain (gridI og) m" and "in_domain (gridI og) n"
  shows "\<exists>r. continuation_value og v (a, b, m, n) r
           \<and> (\<forall>r'. continuation_value og v (a, b, m, n) r' \<longrightarrow> r' = r)
           \<and> RegularGridInterpolator [gridS og, gridS og, gridI og, gridI og] v
               [Fin a, Fin b, Fin m, Fin n] = Inr r"
proof -
  have sS: "sorted (gridS og)" and sI: "sorted (gridI og)"
    using assms(1,2) by (simp_all add: strict_sorted_iff sorted_wrt_mono_rel[of _ "(<)" "(\<le>)"])
  obtain i where i: "encloses (gridS og) i a"
    and fi: "find_indices (gridS og) a = (i, blend_weight (gridS og) i a)"
    using find_indices_cell[OF sS assms(3,5)] by blast
  obtain j where j: "encloses (gridS og) j b"
    and fj: "find_indices (gridS og) b = (j, blend_weight (gridS og) j b)"
    using find_indices_cell[OF sS assms(3,6)] by blast
  obtain k where k: "encloses (gridI og) k m"
    and fk: "find_indices (gridI og) m = (k, blend_weight (gridI og) k m)"
    using find_indices_cell[OF sI assms(4,7)] by blast
  obtain l where l: "encloses (gridI og) l n"
    and fl: "find_indices (gridI og) n = (l, blend_weight (gridI og) l n)"
    using find_indices_cell[OF sI assms(4,8)] by blast
  define r where "r = quadrilinear (gridS og, gridS og, gridI og, gridI og) v (i, j, k, l) (a, b, m, n)"
  have c: "continuation_value og v (a, b, m, n) r"
    unfolding continuation_value_def r_def using i j k l by auto
  have u: "\<forall>r'. continuation_value og v (a, b, m, n) r' \<longrightarrow> r' = r"
    using continuation_value_unique[OF assms(1,2) c] by blast
  have b: "in_bounds (gridS og) (Fin a)" "in_bounds (gridS og) (Fin b)"
       "in_bounds (gridI og) (Fin m)" "in_bounds (gridI og) (Fin n)"
    using assms(5-8) in_domain_ends[OF sS assms(3)] in_domain_ends[OF sI assms(4)] by simp_all
  have "RegularGridInterpolator [gridS og, gridS og, gridI og, gridI og] v
               [Fin a, Fin b, Fin m, Fin n] = Inr r"
    using assms(3,4) b
    by (simp add: RegularGridInterpolator_def fi fj fk fl evaluate_linear_quadrilinear r_def)
  then show ?thesis using c u by blast
qed

lemma interpolator_out_of_domain:
  assumes "sorted (gridS og)" and "sorted (gridI og)"
    and "2 \<le> length (gridS og)" and "2 \<le> length (gridI og)"
    and "\<not> (in_domain (gridS og) a \<and> in_domain (gridS og) b
             \<and> in_domain (gridI og) m \<and> in_domain (gridI og) n)"
  shows "RegularGridInterpolator [gridS og, gridS og, gridI og, gridI og] v
               [Fin a, Fin b, Fin m, Fin n] = Inl ValueError_out_of_bounds"
  using assms(3-5) in_domain_ends[OF assms(1,3)] in_domain_ends[OF assms(2,4)]
  by (auto simp: RegularGridInterpolator_def)


lemma objective_continuation:
  assumes "sorted_wrt (<) (gridS og)" and "sorted_wrt (<) (gridI og)"
    and "2 \<le> length (gridS og)" and "2 \<le> length (gridI og)"
    and "f_fn og x y = ((Fin a, Fin b), (Fin m, Fin n), R, D)"
    and "in_domain (gridS og) a" and "in_domain (gridS og) b"
    and "in_domain (gridI og) m" and "in_domain (gridI og) n"
  shows "\<exists>r. continuation_value og v (a, b, m, n) r
           \<and> (\<forall>r'. continuation_value og v (a, b, m, n) r' \<longrightarrow> r' = r)
           \<and> obj_func og x y v = Inr (u_fn og x y * dt + discount_factor * r)"
proof -
  from interpolator_continuation[OF assms(1-4) assms(6-9), of v]
  obtain r where c: "continuation_value og v (a, b, m, n) r"
    and u: "\<forall>r'. continuation_value og v (a, b, m, n) r' \<longrightarrow> r' = r"
    and i: "RegularGridInterpolator [gridS og, gridS og, gridI og, gridI og] v
               [Fin a, Fin b, Fin m, Fin n] = Inr r"
    by blast
  have "obj_func og x y v = Inr (u_fn og x y * dt + discount_factor * r)"
    by (simp add: obj_func_def Let_def assms(5) i discount_factor_def)
  then show ?thesis using c u by blast
qed

lemma objective_out_of_domain:
  assumes "Model_init u f grid_size = Inr og" and "2 \<le> grid_size"
    and "f x y = ((Fin a, Fin b), (Fin m, Fin n), R, D)"
    and "\<not> (in_domain (gridS og) a \<and> in_domain (gridS og) b
             \<and> in_domain (gridI og) m \<and> in_domain (gridI og) n)"
  shows "obj_func og x y v = Inl ValueError_out_of_bounds"
proof -
  have l: "2 \<le> length (gridS og)" "2 \<le> length (gridI og)"
    using Model_init_grids(1,2)[OF assms(1,2)] assms(2) by simp_all
  have f: "f_fn og x y = ((Fin a, Fin b), (Fin m, Fin n), R, D)"
    using Model_init_grids(8)[OF assms(1,2)] assms(3) by simp
  show ?thesis
    using interpolator_out_of_domain[OF Model_init_sorted[OF assms(1)] l assms(4), of v]
    by (simp add: obj_func_def Let_def f)
qed

text \<open>
  C3.  In a sweep over a model object built by \<open>Model_init\<close> with at least two grid points,
  the pair stored at every interior cell is what the optimizer returns for the objective of
  that cell, and that objective is, at every control for which the transition function
  returns finite susceptible and infected coordinates inside \<^verbatim>\<open>[axis.min, axis.max]\<close>,
  \<open>g control = cost control state * dt + exp (- (nu + ir) * dt) * r\<close>, where \<open>r\<close> is the
  quadrilinear interpolation of the sweep's input array, the value array of the previous
  iteration, at those coordinates: the linear interpolation along each of the four axes,
  taken in a grid cell that encloses the coordinates.  There is such a cell, and every such
  cell gives the same number.
\<close>

theorem interior_objective:
  assumes "Model_init u f grid_size = Inr og" and "2 \<le> grid_size"
    and "T minimize uninit v og = Inr (vg, vn)"
    and "c \<in> set (cells og)"
    and "interior og c"
  shows "minimize (\<lambda>control. obj_func og control (bellman og c) v) (0, 1) bds
           = Inr (vg c, vn c)
       \<and> (\<forall>control a b m n R D.
            f control (bellman og c) = ((Fin a, Fin b), (Fin m, Fin n), R, D)
            \<and> in_domain (gridS og) a \<and> in_domain (gridS og) b
            \<and> in_domain (gridI og) m \<and> in_domain (gridI og) n
            \<longrightarrow> (\<exists>r. continuation_value og v (a, b, m, n) r
                    \<and> (\<forall>r'. continuation_value og v (a, b, m, n) r' \<longrightarrow> r' = r)
                    \<and> obj_func og control (bellman og c) v
                        = Inr (u control (bellman og c) * dt + discount_factor * r)))"
proof -
  have l: "2 \<le> length (gridS og)" "2 \<le> length (gridI og)"
    using Model_init_grids(1,2)[OF assms(1,2)] assms(2) by simp_all
  have uf: "u_fn og = u" "f_fn og = f"
    using Model_init_grids(7,8)[OF assms(1,2)] by simp_all
  note s = Model_init_strict[OF assms(1)]
  have "\<exists>r. continuation_value og v (a, b, m, n) r
           \<and> (\<forall>r'. continuation_value og v (a, b, m, n) r' \<longrightarrow> r' = r)
           \<and> obj_func og control (bellman og c) v
               = Inr (u control (bellman og c) * dt + discount_factor * r)"
    if "f control (bellman og c) = ((Fin a, Fin b), (Fin m, Fin n), R, D)"
      and "in_domain (gridS og) a" "in_domain (gridS og) b"
      and "in_domain (gridI og) m" "in_domain (gridI og) n"
    for control a b m n R D
    using objective_continuation[OF s l, of control "bellman og c" a b m n R D v] that
    by (simp add: uf)
  then show ?thesis using T_interior[OF assms(3-5)] by blast
qed

text \<open>
  A sweep returns when the optimizer returns at every interior cell.  On the three-point
  grid, with the next state at the midpoint of the cell \<open>(1, 0, 0, 1)\<close>, the interpolation of
  \<open>ramp\<close> is \<open>33 / 2\<close>, the mean of its 16 corner values.
\<close>

lemma T_loop_returns:
  assumes "\<And>c. c \<in> set cs \<Longrightarrow> interior og c
             \<Longrightarrow> \<exists>r. minimize_wrap minimize (obj_func og) bds (bellman og c, v) = Inr r"
  shows "\<exists>st'. T_loop minimize og v cs st = Inr st'"
  using assms
proof (induction cs arbitrary: st)
  case Nil
  then show ?case by simp
next
  case (Cons c cs)
  have "\<exists>s. T_cell minimize og v c st = Inr s"
  proof -
    consider "exterior og c" | "post_herd og c" | "interior og c"
      using cell_kinds(1)[of og c] by blast
    then show ?thesis
    proof cases
      case 1
      then show ?thesis by (simp add: T_cell_exterior)
    next
      case 2
      then show ?thesis by (simp add: T_cell_post_herd)
    next
      case 3
      then obtain r where "minimize_wrap minimize (obj_func og) bds (bellman og c, v) = Inr r"
        using Cons.prems[of c] by auto
      then show ?thesis using 3 by (cases r) (simp add: T_cell_interior)
    qed
  qed
  then obtain s where s: "T_cell minimize og v c st = Inr s" by blast
  obtain st' where "T_loop minimize og v cs s = Inr st'"
    using Cons.IH[of s] Cons.prems by auto
  then show ?case by (simp add: s)
qed

lemma T_returns:
  assumes "\<And>c. c \<in> set (cells og) \<Longrightarrow> interior og c
             \<Longrightarrow> \<exists>r. minimize_wrap minimize (obj_func og) bds (bellman og c, v) = Inr r"
  shows "\<exists>vg vn. T minimize uninit v og = Inr (vg, vn)"
proof -
  obtain st where "T_run minimize uninit v og = Inr st"
    unfolding T_run_def using T_loop_returns[of "cells og" og minimize v "T_init uninit"] assms
    by blast
  then show ?thesis by (simp add: T_def)
qed

lemma Model_init_og3: "Model_init unit_cost midpoint_transition 3 = Inr og3"
  by (simp add: Model_init_def linspace_def og3_def Let_def upt_conv_Cons numeral_3_eq_3)

lemma og3_in_domain:
  "in_domain (gridS og3) (30001 / 40000)" "in_domain (gridS og3) (10003 / 40000)"
  "in_domain (gridI og3) (5003 / 40000)" "in_domain (gridI og3) (15001 / 40000)"
  by (simp_all add: in_domain_def og3_def)

lemma og3_continuation:
  "continuation_value og3 ramp (30001 / 40000, 10003 / 40000, 5003 / 40000, 15001 / 40000)
     (33 / 2)"
proof -
  have "encloses (gridS og3) 1 (30001 / 40000)" "encloses (gridS og3) 0 (10003 / 40000)"
    "encloses (gridI og3) 0 (5003 / 40000)" "encloses (gridI og3) 1 (15001 / 40000)"
    by (simp_all add: encloses_def og3_def)
  moreover have "quadrilinear (gridS og3, gridS og3, gridI og3, gridI og3) ramp (1, 0, 0, 1)
      (30001 / 40000, 10003 / 40000, 5003 / 40000, 15001 / 40000) = 33 / 2"
    by (simp add: quadrilinear_def axis_lerp_def lerp_def blend_weight_def og3_def ramp_def)
  ultimately show ?thesis
    unfolding continuation_value_def prod.case
    by (intro exI[of _ 1] exI[of _ 0] conjI) simp_all
qed

lemma T_og3: "\<exists>vg vn. T minimize_at_start zeros v og3 = Inr (vg, vn)"
proof (rule T_returns)
  fix c
  have l: "2 \<le> length (gridS og3)" "2 \<le> length (gridI og3)" by (simp_all add: og3_def)
  have f: "f_fn og3 (clip (0, 1) bds) (bellman og3 c)
             = ((Fin (30001 / 40000), Fin (10003 / 40000)),
                (Fin (5003 / 40000), Fin (15001 / 40000)), (Fin 0, Fin 0), (0, 0))"
    by (simp add: og3_def midpoint_transition_def)
  obtain r where "obj_func og3 (clip (0, 1) bds) (bellman og3 c) v = Inr r"
    using obj_func_in_domain[OF f l, of v] by (auto simp: og3_def)
  then show "\<exists>r. minimize_wrap minimize_at_start (obj_func og3) bds (bellman og3 c, v) = Inr r"
    by (simp add: minimize_wrap_def minimize_at_start_def Let_def)
qed

theorem interior_objective_witness:
  "Model_init unit_cost midpoint_transition 3 = Inr og3 \<and> (2::int) \<le> 3
   \<and> (\<exists>vg vn. T minimize_at_start zeros ramp og3 = Inr (vg, vn)
        \<and> (1, 0, 0, 0) \<in> set (cells og3) \<and> interior og3 (1, 0, 0, 0)
        \<and> midpoint_transition (1 / 10000, 1) (bellman og3 (1, 0, 0, 0))
            = ((Fin (30001 / 40000), Fin (10003 / 40000)),
               (Fin (5003 / 40000), Fin (15001 / 40000)), (Fin 0, Fin 0), (0, 0))
        \<and> in_domain (gridS og3) (30001 / 40000) \<and> in_domain (gridS og3) (10003 / 40000)
        \<and> in_domain (gridI og3) (5003 / 40000) \<and> in_domain (gridI og3) (15001 / 40000)
        \<and> continuation_value og3 ramp
            (30001 / 40000, 10003 / 40000, 5003 / 40000, 15001 / 40000) (33 / 2)
        \<and> vg (1, 0, 0, 0) = (1 / 10000, 1)
        \<and> vn (1, 0, 0, 0) = 1 * dt + discount_factor * (33 / 2))"
proof -
  obtain vg vn where T: "T minimize_at_start zeros ramp og3 = Inr (vg, vn)"
    using T_og3 by blast
  have mem: "(1, 0, 0, 0) \<in> set (cells og3)" by (simp add: cells_def og3_def)
  have int: "interior og3 (1, 0, 0, 0)"
    by (simp add: interior_def within_bound_def bellman_def og3_def np_sum_axis0_def
        np_sum_all_def P_par_def herd_threshold_def vec_defs)
  have f: "midpoint_transition (1 / 10000, 1) (bellman og3 (1, 0, 0, 0))
            = ((Fin (30001 / 40000), Fin (10003 / 40000)),
               (Fin (5003 / 40000), Fin (15001 / 40000)), (Fin 0, Fin 0), (0, 0))"
    by (simp add: midpoint_transition_def)
  have two: "(2::int) \<le> 3" by simp
  note inst = interior_objective[OF Model_init_og3 two T mem int]
  note m = inst[THEN conjunct1]
  note d = og3_in_domain
  from inst[THEN conjunct2, rule_format,
      OF conjI[OF f conjI[OF d(1) conjI[OF d(2) conjI[OF d(3) d(4)]]]]]
  obtain r where H: "continuation_value og3 ramp
            (30001 / 40000, 10003 / 40000, 5003 / 40000, 15001 / 40000) r
       \<and> (\<forall>r'. continuation_value og3 ramp
            (30001 / 40000, 10003 / 40000, 5003 / 40000, 15001 / 40000) r' \<longrightarrow> r' = r)
       \<and> obj_func og3 (1 / 10000, 1) (bellman og3 (1, 0, 0, 0)) ramp
           = Inr (unit_cost (1 / 10000, 1) (bellman og3 (1, 0, 0, 0)) * dt + discount_factor * r)" ..
  note r = H[THEN conjunct2, THEN conjunct1, rule_format]
  note o = H[THEN conjunct2, THEN conjunct2]
  have "r = 33 / 2" using r[OF og3_continuation] by simp
  then have "obj_func og3 (1 / 10000, 1) (bellman og3 (1, 0, 0, 0)) ramp
              = Inr (1 * dt + discount_factor * (33 / 2))"
    using o by (simp add: unit_cost_def)
  then have "vg (1, 0, 0, 0) = (1 / 10000, 1)
        \<and> vn (1, 0, 0, 0) = 1 * dt + discount_factor * (33 / 2)"
    using m by (simp add: minimize_at_start_def Let_def clip_guess)
  then show ?thesis
    using T mem int f og3_in_domain og3_continuation Model_init_og3
    by (intro conjI exI[of _ vg] exI[of _ vn]) simp_all
qed

text \<open>
  At a grid point the interpolation in the cell above it returns the stored value.  With
  the cost and the transition function of the notebook, the next state is inside the domain
  at every cell of the grid and every control with components in \<open>[0, 1]\<close>, so there the
  objective is the cost term plus the discounted interpolation.
\<close>

lemma quadrilinear_at_node:
  "quadrilinear (g0, g1, g2, g3) v (i, j, k, l) (g0 ! i, g1 ! j, g2 ! k, g3 ! l) = v (i, j, k, l)"
  by (simp add: quadrilinear_def axis_lerp_def lerp_def blend_weight_def)

lemma notebook_objective:
  assumes "Model_init cost dynamics grid_size = Inr og" and "2 \<le> grid_size"
    and "c \<in> set (cells og)"
    and "0 \<le> fst L" "fst L \<le> 1" "0 \<le> snd L" "snd L \<le> 1"
  shows "\<exists>a b m n R D r.
           dynamics L (bellman og c) = ((Fin a, Fin b), (Fin m, Fin n), R, D)
         \<and> continuation_value og v (a, b, m, n) r
         \<and> obj_func og L (bellman og c) v
             = Inr (cost L (bellman og c) * dt + discount_factor * r)"
proof -
  obtain a b m n R D where
    dyn: "dynamics L (bellman og c) = ((Fin a, Fin b), (Fin m, Fin n), R, D)"
    and r: "11 / 100000 \<le> a" "a \<le> 1" "11 / 100000 \<le> b" "b \<le> 1"
       "11 / 100000 \<le> m" "m \<le> 1 / 2" "11 / 100000 \<le> n" "n \<le> 1 / 2"
    using dynamics_clamped_if[OF death_increment_small[OF assms(4-7)
          grid_state_range[OF assms(1-3)]]] by blast
  note g = Model_init_grids[OF assms(1,2)]
  note s = Model_init_sorted[OF assms(1)]
  have l: "2 \<le> length (gridS og)" "2 \<le> length (gridI og)"
    using assms(2) by (simp_all add: g)
  have d: "in_domain (gridS og) a" "in_domain (gridS og) b"
    "in_domain (gridI og) m" "in_domain (gridI og) n"
    using r by (simp_all add: in_domain_ends[OF s(1) l(1)] in_domain_ends[OF s(2) l(2)] g)
  have f: "f_fn og L (bellman og c) = ((Fin a, Fin b), (Fin m, Fin n), R, D)"
    using dyn by (simp add: g)
  from objective_continuation[OF Model_init_strict[OF assms(1)] l f d, of v]
  obtain r where H: "continuation_value og v (a, b, m, n) r
      \<and> (\<forall>r'. continuation_value og v (a, b, m, n) r' \<longrightarrow> r' = r)
      \<and> obj_func og L (bellman og c) v = Inr (u_fn og L (bellman og c) * dt + discount_factor * r)" ..
  have "obj_func og L (bellman og c) v = Inr (cost L (bellman og c) * dt + discount_factor * r)"
    using H[THEN conjunct2, THEN conjunct2] by (simp add: g)
  then show ?thesis using dyn H[THEN conjunct1] by (intro exI conjI)
qed

text \<open>
  C7.  For every control the sweep can evaluate the objective at, with both components in
  \<open>[0, 1]\<close> (the control box and the initial guess), and every state with all entries in
  \<open>[0, 1]\<close> (every state of the grid), \<open>dynamics\<close> returns finite susceptible coordinates in
  \<open>[1.1e-4, 1]\<close> and finite infected coordinates in \<open>[1.1e-4, 0.5]\<close>; these lie between the
  first and the last point of the axes of a model object built with at least two grid
  points, so the objective evaluates without the out-of-bounds error, at that state and at
  the state of every cell of the grid.
\<close>

theorem transition_in_domain:
  assumes "0 \<le> fst L" "fst L \<le> 1" "0 \<le> snd L" "snd L \<le> 1"
    and "0 \<le> fst (fst st)" "fst (fst st) \<le> 1" "0 \<le> snd (fst st)" "snd (fst st) \<le> 1"
    and "0 \<le> fst (snd st)" "fst (snd st) \<le> 1" "0 \<le> snd (snd st)" "snd (snd st) \<le> 1"
    and "Model_init cost dynamics grid_size = Inr og" and "2 \<le> grid_size"
  shows "(\<exists>S_y S_o I_y I_o R D.
           dynamics L st = ((Fin S_y, Fin S_o), (Fin I_y, Fin I_o), R, D)
         \<and> 11 / 100000 \<le> S_y \<and> S_y \<le> 1 \<and> 11 / 100000 \<le> S_o \<and> S_o \<le> 1
         \<and> 11 / 100000 \<le> I_y \<and> I_y \<le> 1 / 2 \<and> 11 / 100000 \<le> I_o \<and> I_o \<le> 1 / 2)
       \<and> (\<exists>r. obj_func og L st v = Inr r)
       \<and> (\<forall>c \<in> set (cells og). \<exists>r. obj_func og L (bellman og c) v = Inr r)"
proof -
  have "\<exists>r. obj_func og L (bellman og c) v = Inr r" if "c \<in> set (cells og)" for c
    using objective_defined[OF assms(1-4) grid_state_range[OF assms(13,14) that] assms(13,14)] .
  then show ?thesis
    using dynamics_clamped_if[OF death_increment_small[OF assms(1-12)]]
      objective_defined[OF assms] by blast
qed

lemma Model_init_notebook2: "Model_init cost dynamics 2 = Inr og_notebook2"
  by (simp add: Model_init_def linspace_def og_notebook2_def Let_def upt_conv_Cons numeral_2_eq_2)

theorem transition_in_domain_witness:
  "Model_init cost dynamics 2 = Inr og_notebook2
   \<and> (\<exists>S_y S_o I_y I_o R D.
         dynamics (1 / 2, 1 / 2) ((1 / 2, 1 / 10), (1 / 100, 1 / 100))
           = ((Fin S_y, Fin S_o), (Fin I_y, Fin I_o), R, D)
         \<and> 11 / 100000 \<le> S_y \<and> S_y \<le> 1 \<and> 11 / 100000 \<le> S_o \<and> S_o \<le> 1
         \<and> 11 / 100000 \<le> I_y \<and> I_y \<le> 1 / 2 \<and> 11 / 100000 \<le> I_o \<and> I_o \<le> 1 / 2)
   \<and> (\<exists>r. obj_func og_notebook2 (1 / 2, 1 / 2) ((1 / 2, 1 / 10), (1 / 100, 1 / 100)) zeros = Inr r)
   \<and> (0, 0, 1, 0) \<in> set (cells og_notebook2)
   \<and> (\<exists>r. obj_func og_notebook2 (1 / 2, 1 / 2) (bellman og_notebook2 (0, 0, 1, 0)) zeros = Inr r)"
  using transition_in_domain[of "(1 / 2, 1 / 2)" "((1 / 2, 1 / 10), (1 / 100, 1 / 100))" 2
      og_notebook2 zeros]
    Model_init_notebook2
  by (simp add: cells_def og_notebook2_def)

subsection \<open>The value-iteration loop\<close>

lemma loop_body_Inr:
  assumes "loop_body sweep cs verbose print_skip st = Inr st'"
  shows "iter st' = iter st + 1"
    and "\<exists>vg. sweep (v_cur st) = Inr (vg, v_cur st') \<and> last_sweep st' = Some (vg, v_cur st')"
    and "sup_norm cs (v_cur st) (v_cur st') = Inr (error st')"
    and "printed st' = printed st @
           (if verbose \<and> iter st mod print_skip = 0
            then [Error_at_iteration (iter st) (error st')] else [])"
  using assms by (auto simp: loop_body_def split: sum.splits prod.splits if_splits)

lemma loop_iterates_shift:
  "loop_iterates sweep cs verbose print_skip (Suc n) st =
     (case loop_body sweep cs verbose print_skip st of
        Inl e \<Rightarrow> Inl e
      | Inr s \<Rightarrow> loop_iterates sweep cs verbose print_skip n s)"
  by (induction n) (auto split: sum.splits)

lemma loop_iterates_iter:
  "loop_iterates sweep cs verbose print_skip n st = Inr s \<Longrightarrow> iter s = iter st + int n"
proof (induction n arbitrary: s)
  case 0
  then show ?case by simp
next
  case (Suc n)
  then obtain s1 where s1: "loop_iterates sweep cs verbose print_skip n st = Inr s1"
    and b: "loop_body sweep cs verbose print_skip s1 = Inr s"
    by (auto split: sum.splits)
  show ?case using Suc.IH[OF s1] loop_body_Inr(1)[OF b] by simp
qed

lemma loop_iterates_printed:
  "loop_iterates sweep cs verbose print_skip n st = Inr s \<Longrightarrow> printed st = [] \<Longrightarrow>
     Failed_to_converge \<notin> set (printed s) \<and> (\<forall>i. Converged_in i \<notin> set (printed s))"
proof (induction n arbitrary: s)
  case 0
  then show ?case by simp
next
  case (Suc n)
  then obtain s1 where s1: "loop_iterates sweep cs verbose print_skip n st = Inr s1"
    and b: "loop_body sweep cs verbose print_skip s1 = Inr s"
    by (auto split: sum.splits)
  show ?case using Suc.IH[OF s1 Suc.prems(2)] loop_body_Inr(4)[OF b] by simp
qed

lemma solve_loop_char:
  assumes "solve_loop sweep cs max_iter tol verbose print_skip st = Inr st'"
  shows "\<exists>n. loop_iterates sweep cs verbose print_skip n st = Inr st'
           \<and> \<not> (iter st' < max_iter \<and> error st' > tol)
           \<and> (\<forall>k < n. \<exists>s. loop_iterates sweep cs verbose print_skip k st = Inr s
                  \<and> iter s < max_iter \<and> error s > tol)"
  using assms
proof (induction sweep cs max_iter tol verbose print_skip st rule: solve_loop.induct)
  case (1 sweep cs max_iter tol verbose print_skip st)
  show ?case
  proof (cases "iter st < max_iter \<and> error st > tol")
    case False
    then have "solve_loop sweep cs max_iter tol verbose print_skip st = Inr st"
      by (subst solve_loop.simps) auto
    then have "st' = st" using "1.prems" by simp
    then have "loop_iterates sweep cs verbose print_skip 0 st = Inr st'
           \<and> \<not> (iter st' < max_iter \<and> error st' > tol)
           \<and> (\<forall>k < (0::nat). \<exists>s. loop_iterates sweep cs verbose print_skip k st = Inr s
                  \<and> iter s < max_iter \<and> error s > tol)"
      using False by simp
    then show ?thesis by blast
  next
    case True
    then obtain s1 where b: "loop_body sweep cs verbose print_skip st = Inr s1"
      and r: "solve_loop sweep cs max_iter tol verbose print_skip s1 = Inr st'"
      using "1.prems" by (subst (asm) solve_loop.simps) (simp split: sum.splits)
    from "1.IH"[OF True b r] obtain n where n:
      "loop_iterates sweep cs verbose print_skip n s1 = Inr st'"
      "\<not> (iter st' < max_iter \<and> error st' > tol)"
      "\<forall>k < n. \<exists>s. loop_iterates sweep cs verbose print_skip k s1 = Inr s
                  \<and> iter s < max_iter \<and> error s > tol"
      by blast
    have 1: "loop_iterates sweep cs verbose print_skip (Suc n) st = Inr st'"
      using n(1) b by (simp add: loop_iterates_shift del: loop_iterates.simps)
    have 2: "\<exists>s. loop_iterates sweep cs verbose print_skip k st = Inr s
                  \<and> iter s < max_iter \<and> error s > tol" if "k < Suc n" for k
    proof (cases k)
      case 0
      then show ?thesis using True by simp
    next
      case (Suc j)
      then have "j < n" using that by simp
      then show ?thesis
        using n(3) b Suc by (simp add: loop_iterates_shift del: loop_iterates.simps)
    qed
    from 1 2 n(2) show ?thesis by blast
  qed
qed

lemma solve_model_Inr:
  assumes "solve_model minimize uninit og v0 max_iter tol verbose print_skip = Inr r"
  shows "\<exists>st. solve_loop (\<lambda>v. T minimize uninit v og) (cells og) max_iter tol verbose print_skip
              (solve_init v0 tol) = Inr st
          \<and> last_sweep st = Some (returned r)
          \<and> stdout r = printed st
               @ (if iter st = max_iter
                  then [Error_at_iteration (iter st) (error st), Failed_to_converge] else [])
               @ (if verbose \<and> iter st < max_iter then [Converged_in (iter st)] else [])"
  using assms
  by (auto simp: solve_model_def Let_def split: sum.splits option.splits)

lemma solve_model_run:
  assumes "solve_model minimize uninit og v0 max_iter tol verbose print_skip = Inr r"
  obtains n st s_prev where "1 \<le> n" and "int n \<le> max_iter"
    and "loop_iterates (\<lambda>v. T minimize uninit v og) (cells og) verbose print_skip (n - 1)
           (solve_init v0 tol) = Inr s_prev"
    and "loop_iterates (\<lambda>v. T minimize uninit v og) (cells og) verbose print_skip n
           (solve_init v0 tol) = Inr st"
    and "T minimize uninit (v_cur s_prev) og = Inr (returned r)"
    and "sup_norm (cells og) (v_cur s_prev) (snd (returned r)) = Inr (error st)"
    and "error st \<le> tol \<or> int n = max_iter"
    and "\<forall>k. 1 \<le> k \<and> k < n \<longrightarrow>
           (\<exists>s. loop_iterates (\<lambda>v. T minimize uninit v og) (cells og) verbose print_skip k
                  (solve_init v0 tol) = Inr s \<and> tol < error s)"
    and "Failed_to_converge \<in> set (stdout r) \<longleftrightarrow> int n = max_iter"
    and "Converged_in (int n) \<in> set (stdout r) \<longleftrightarrow> verbose \<and> int n < max_iter"
proof -
  define sweep where "sweep = (\<lambda>v. T minimize uninit v og)"
  define st0 where "st0 = solve_init v0 tol"
  from solve_model_Inr[OF assms] obtain st where
    loop: "solve_loop sweep (cells og) max_iter tol verbose print_skip st0 = Inr st"
    and last: "last_sweep st = Some (returned r)"
    and out: "stdout r = printed st
               @ (if iter st = max_iter
                  then [Error_at_iteration (iter st) (error st), Failed_to_converge] else [])
               @ (if verbose \<and> iter st < max_iter then [Converged_in (iter st)] else [])"
    unfolding sweep_def st0_def by blast
  from solve_loop_char[OF loop] obtain n where
    it: "loop_iterates sweep (cells og) verbose print_skip n st0 = Inr st"
    and exit: "\<not> (iter st < max_iter \<and> error st > tol)"
    and before: "\<forall>k < n. \<exists>s. loop_iterates sweep (cells og) verbose print_skip k st0 = Inr s
                  \<and> iter s < max_iter \<and> error s > tol"
    by blast
  have iter_n: "iter st = int n"
    using loop_iterates_iter[OF it] by (simp add: st0_def solve_init_def)
  have n1: "1 \<le> n"
  proof (rule ccontr)
    assume "\<not> 1 \<le> n"
    then have "n = 0" by simp
    then have "st = st0" using it by simp
    then show False using last by (simp add: st0_def solve_init_def)
  qed
  then obtain m where m: "n = Suc m" by (cases n) auto
  from it obtain s_prev where
    prev: "loop_iterates sweep (cells og) verbose print_skip m st0 = Inr s_prev"
    and body: "loop_body sweep (cells og) verbose print_skip s_prev = Inr st"
    unfolding m by (auto split: sum.splits)
  have "iter s_prev < max_iter"
    using before prev m by (auto simp: m)
  moreover have "iter s_prev = int m"
    using loop_iterates_iter[OF prev] by (simp add: st0_def solve_init_def)
  ultimately have n_le: "int n \<le> max_iter" by (simp add: m)
  have swp: "sweep (v_cur s_prev) = Inr (returned r)"
    and sn: "sup_norm (cells og) (v_cur s_prev) (snd (returned r)) = Inr (error st)"
    using loop_body_Inr(2,3)[OF body] last by auto
  have stop: "error st \<le> tol \<or> int n = max_iter"
    using exit n_le iter_n by auto
  have earlier: "\<forall>k. 1 \<le> k \<and> k < n \<longrightarrow>
      (\<exists>s. loop_iterates sweep (cells og) verbose print_skip k st0 = Inr s \<and> tol < error s)"
    using before by auto
  have pr: "Failed_to_converge \<notin> set (printed st) \<and> (\<forall>i. Converged_in i \<notin> set (printed st))"
    using loop_iterates_printed[OF it] by (simp add: st0_def solve_init_def)
  have f: "Failed_to_converge \<in> set (stdout r) \<longleftrightarrow> int n = max_iter"
    using pr by (simp add: out iter_n)
  have c: "Converged_in (int n) \<in> set (stdout r) \<longleftrightarrow> verbose \<and> int n < max_iter"
    using pr by (simp add: out iter_n)
  have prev': "loop_iterates sweep (cells og) verbose print_skip (n - 1) st0 = Inr s_prev"
    using prev by (simp add: m)
  from n1 n_le prev' it swp sn stop earlier f c show ?thesis
    unfolding sweep_def st0_def by (rule that)
qed

lemma loop_body_succeeds:
  assumes "cs \<noteq> []" and "\<not> (verbose \<and> print_skip = 0)" and "\<exists>r. sweep (v_cur st) = Inr r"
  shows "\<exists>st'. loop_body sweep cs verbose print_skip st = Inr st'"
  using assms by (auto simp: loop_body_def sup_norm_def split: sum.splits prod.splits)

lemma solve_loop_returns:
  assumes "cs \<noteq> []" and "\<not> (verbose \<and> print_skip = 0)" and "\<forall>v. \<exists>r. sweep v = Inr r"
  shows "\<exists>st'. solve_loop sweep cs max_iter tol verbose print_skip st = Inr st'"
  using assms
proof (induction sweep cs max_iter tol verbose print_skip st rule: solve_loop.induct)
  case (1 sweep cs max_iter tol verbose print_skip st)
  show ?case
  proof (cases "iter st < max_iter \<and> error st > tol")
    case False
    then have "solve_loop sweep cs max_iter tol verbose print_skip st = Inr st"
      by (subst solve_loop.simps) auto
    then show ?thesis by blast
  next
    case True
    from "1.prems" obtain s1 where b: "loop_body sweep cs verbose print_skip st = Inr s1"
      using loop_body_succeeds[of cs verbose print_skip sweep st] by blast
    from "1.IH"[OF True b "1.prems"] obtain st' where
      "solve_loop sweep cs max_iter tol verbose print_skip s1 = Inr st'" by blast
    then have "solve_loop sweep cs max_iter tol verbose print_skip st = Inr st'"
      using True b by (subst solve_loop.simps) simp
    then show ?thesis by blast
  qed
qed

lemma solve_model_returns:
  assumes "1 \<le> max_iter" and "cells og \<noteq> []" and "\<not> (verbose \<and> print_skip = 0)"
    and "\<forall>v. \<exists>r. T minimize uninit v og = Inr r"
  shows "\<exists>r. solve_model minimize uninit og v0 max_iter tol verbose print_skip = Inr r"
proof -
  from solve_loop_returns[OF assms(2,3), of "\<lambda>v. T minimize uninit v og"] assms(4)
  obtain st where loop: "solve_loop (\<lambda>v. T minimize uninit v og) (cells og) max_iter tol verbose
      print_skip (solve_init v0 tol) = Inr st"
    by blast
  from solve_loop_char[OF loop] obtain n where
    it: "loop_iterates (\<lambda>v. T minimize uninit v og) (cells og) verbose print_skip n
           (solve_init v0 tol) = Inr st"
    and exit: "\<not> (iter st < max_iter \<and> error st > tol)"
    by blast
  have "n \<noteq> 0"
  proof
    assume "n = 0"
    then have "st = solve_init v0 tol" using it by simp
    then show False using exit assms(1) by (simp add: solve_init_def)
  qed
  then obtain m where "n = Suc m" by (cases n) auto
  with it obtain s where "loop_body (\<lambda>v. T minimize uninit v og) (cells og) verbose print_skip s = Inr st"
    by (auto split: sum.splits)
  from loop_body_Inr(2)[OF this] obtain p where "last_sweep st = Some p" by blast
  then show ?thesis
    using loop by (simp add: solve_model_def Let_def)
qed

lemma solve_model_no_sweep:
  assumes "max_iter \<le> 0"
  shows "solve_model minimize uninit og v0 max_iter tol verbose print_skip = Inl UnboundLocalError"
proof -
  have "solve_loop (\<lambda>v. T minimize uninit v og) (cells og) max_iter tol verbose print_skip
      (solve_init v0 tol) = Inr (solve_init v0 tol)"
    using assms by (subst solve_loop.simps) (simp add: solve_init_def)
  then show ?thesis by (simp add: solve_model_def Let_def solve_init_def)
qed

lemma sup_norm_nonneg: "sup_norm cs v v' = Inr e \<Longrightarrow> 0 \<le> e"
proof -
  assume a: "sup_norm cs v v' = Inr e"
  then have ne: "cs \<noteq> []" and e: "e = Max (set (map (\<lambda>c. \<bar>v c - v' c\<bar>) cs))"
    by (auto simp: sup_norm_def split: if_splits)
  then obtain c where "c \<in> set cs" by (cases cs) auto
  then have "\<bar>v c - v' c\<bar> \<le> e" unfolding e by (intro Max_ge) auto
  then show ?thesis by linarith
qed

lemma solve_model_negative_tol:
  assumes "tol < 0" and "solve_model minimize uninit og v0 max_iter tol verbose print_skip = Inr r"
  shows "Failed_to_converge \<in> set (stdout r)"
proof -
  show ?thesis
  proof (rule solve_model_run[OF assms(2)])
    fix n st s_prev
    assume sn: "sup_norm (cells og) (v_cur s_prev) (snd (returned r)) = Inr (error st)"
      and stop: "error st \<le> tol \<or> int n = max_iter"
      and f: "Failed_to_converge \<in> set (stdout r) \<longleftrightarrow> int n = max_iter"
    have "0 \<le> error st" using sup_norm_nonneg[OF sn] .
    then show ?thesis using stop f assms(1) by auto
  qed
qed

lemma linspace_nonneg: "0 \<le> num \<Longrightarrow> \<exists>xs. linspace a b num = Inr xs \<and> length xs = nat num"
  by (auto simp: linspace_def Let_def)

lemma Model_init_accepts:
  assumes "0 \<le> grid_size"
  shows "\<exists>og. Model_init u f grid_size = Inr og
           \<and> length (gridS og) = nat grid_size \<and> length (gridI og) = nat grid_size"
proof -
  obtain gS where gS: "linspace (1 / 10000) 1 grid_size = Inr gS" "length gS = nat grid_size"
    using linspace_nonneg[OF assms] by blast
  obtain gI where gI: "linspace (1 / 10000) (1 / 2) grid_size = Inr gI" "length gI = nat grid_size"
    using linspace_nonneg[OF assms] by blast
  show ?thesis by (simp add: Model_init_def gS gI)
qed

lemma solve_model_empty_grid:
  assumes "gridS og = []" and "gridI og = []" and "1 \<le> max_iter"
  shows "solve_model minimize uninit og v0 max_iter tol verbose print_skip = Inl ValueError_zero_size"
proof -
  have c: "cells og = []" using assms(1) by (simp add: cells_def)
  have "loop_body (\<lambda>v. T minimize uninit v og) (cells og) verbose print_skip (solve_init v0 tol)
      = Inl ValueError_zero_size"
    by (simp add: loop_body_def T_def T_run_def c sup_norm_def)
  then have "solve_loop (\<lambda>v. T minimize uninit v og) (cells og) max_iter tol verbose print_skip
      (solve_init v0 tol) = Inl ValueError_zero_size"
    using assms(3) by (subst solve_loop.simps) (simp add: solve_init_def)
  then show ?thesis by (simp add: solve_model_def Let_def)
qed

subsection \<open>One pass of the loop over the grid of two points per axis\<close>

lemma T_run_og2_all:
  "\<exists>st. T_run minimize_at_start zeros zeros og2 = Inr st
     \<and> map (v_new st) (cells og2) = [0, 0, 1, 1, 1, 1, 1, 1, 1, 1, 1, 1, 1, 1, 1, 1]"
  by (simp add: T_run_def cells_og2 T_init_def og2_kinds T_cell_exterior T_cell_post_herd
      T_cell_interior minimize_og2)

lemma T_og2_sup_norm:
  "\<exists>vg vn. T minimize_at_start zeros zeros og2 = Inr (vg, vn)
     \<and> sup_norm (cells og2) zeros vn = Inr 1"
proof -
  from T_run_og2_all obtain st where H: "T_run minimize_at_start zeros zeros og2 = Inr st
    \<and> map (v_new st) (cells og2) = [0, 0, 1, 1, 1, 1, 1, 1, 1, 1, 1, 1, 1, 1, 1, 1]" ..
  note st = H[THEN conjunct1] and vals = H[THEN conjunct2]
  have "map (\<lambda>c. \<bar>zeros c - v_new st c\<bar>) (cells og2) = map (\<lambda>x. \<bar>0 - x\<bar>) (map (v_new st) (cells og2))"
    by (simp add: zeros_def)
  also have "\<dots> = [0, 0, 1, 1, 1, 1, 1, 1, 1, 1, 1, 1, 1, 1, 1, 1]"
    unfolding vals by simp
  finally have "Max (set (map (\<lambda>c. \<bar>zeros c - v_new st c\<bar>) (cells og2))) = 1"
    by simp
  moreover have "cells og2 \<noteq> []" by (simp add: cells_og2)
  ultimately have "sup_norm (cells og2) zeros (v_new st) = Inr 1"
    by (simp add: sup_norm_def)
  then show ?thesis using st by (simp add: T_def)
qed

lemma solve_og2_one_sweep:
  "\<exists>vg vn. T minimize_at_start zeros zeros og2 = Inr (vg, vn)
     \<and> solve_model minimize_at_start zeros og2 zeros 1 tol True 5
       = Inr \<lparr>stdout = [Error_at_iteration 0 1, Error_at_iteration 1 1, Failed_to_converge],
              returned = (vg, vn)\<rparr>"
proof -
  from T_og2_sup_norm obtain vg vn where H: "T minimize_at_start zeros zeros og2 = Inr (vg, vn)
    \<and> sup_norm (cells og2) zeros vn = Inr 1" by (elim exE)
  note T = H[THEN conjunct1] and sn = H[THEN conjunct2]
  define s1 where "s1 = \<lparr>v_cur = vn, iter = 1, error = 1, last_sweep = Some (vg, vn),
             printed = [Error_at_iteration 0 1]\<rparr>"
  have body: "loop_body (\<lambda>v. T minimize_at_start zeros v og2) (cells og2) True 5 (solve_init zeros tol)
      = Inr s1"
    by (simp add: loop_body_def solve_init_def T sn s1_def)
  have stop: "solve_loop (\<lambda>v. T minimize_at_start zeros v og2) (cells og2) 1 tol True 5 s1 = Inr s1"
    by (subst solve_loop.simps) (simp add: s1_def)
  have "solve_loop (\<lambda>v. T minimize_at_start zeros v og2) (cells og2) 1 tol True 5 (solve_init zeros tol)
      = Inr s1"
    by (subst solve_loop.simps) (simp add: body stop, simp add: solve_init_def)
  then have "solve_model minimize_at_start zeros og2 zeros 1 tol True 5
       = Inr \<lparr>stdout = [Error_at_iteration 0 1, Error_at_iteration 1 1, Failed_to_converge],
              returned = (vg, vn)\<rparr>"
    by (simp add: solve_model_def Let_def s1_def)
  with T show ?thesis by (intro exI[of _ vg] exI[of _ vn] conjI)
qed

subsection \<open>When the loop stops and what it returns\<close>

text \<open>
  C4 (as amended).  With an iteration budget of at least 1, a grid that is not empty and
  sweeps that return, \<open>solve_model\<close> returns.  When it returns it has made \<open>n\<close> sweeps with
  \<open>1 \<le> n \<le> max_iter\<close>, where \<open>n\<close> is the first count at which the sup-norm between the
  input and the output array of the sweep is at or below the tolerance or the count equals
  \<open>max_iter\<close>; what it returns is the pair of arrays of that last sweep and nothing else.
  There is no flag: the line "Failed to converge!" is printed exactly when \<open>n = max_iter\<close>,
  whether or not the last sweep met the tolerance, and the line "Converged in n iterations"
  exactly when \<open>verbose\<close> is set and \<open>n < max_iter\<close>.
\<close>

theorem solve_model_exit:
  "(1 \<le> max_iter \<and> cells og \<noteq> [] \<and> \<not> (verbose \<and> print_skip = 0)
      \<and> (\<forall>v. \<exists>p. T minimize uninit v og = Inr p)
     \<longrightarrow> (\<exists>r. solve_model minimize uninit og v0 max_iter tol verbose print_skip = Inr r))
   \<and> (\<forall>r. solve_model minimize uninit og v0 max_iter tol verbose print_skip = Inr r \<longrightarrow>
        (\<exists>n st s_prev.
           1 \<le> n \<and> int n \<le> max_iter
         \<and> loop_iterates (\<lambda>v. T minimize uninit v og) (cells og) verbose print_skip (n - 1)
              (solve_init v0 tol) = Inr s_prev
         \<and> loop_iterates (\<lambda>v. T minimize uninit v og) (cells og) verbose print_skip n
              (solve_init v0 tol) = Inr st
         \<and> T minimize uninit (v_cur s_prev) og = Inr (returned r)
         \<and> sup_norm (cells og) (v_cur s_prev) (snd (returned r)) = Inr (error st)
         \<and> (error st \<le> tol \<or> int n = max_iter)
         \<and> (\<forall>k. 1 \<le> k \<and> k < n \<longrightarrow>
               (\<exists>s. loop_iterates (\<lambda>v. T minimize uninit v og) (cells og) verbose print_skip k
                      (solve_init v0 tol) = Inr s \<and> tol < error s))
         \<and> (Failed_to_converge \<in> set (stdout r) \<longleftrightarrow> int n = max_iter)
         \<and> (Converged_in (int n) \<in> set (stdout r) \<longleftrightarrow> verbose \<and> int n < max_iter)))"
proof (intro conjI impI allI)
  assume "1 \<le> max_iter \<and> cells og \<noteq> [] \<and> \<not> (verbose \<and> print_skip = 0)
      \<and> (\<forall>v. \<exists>p. T minimize uninit v og = Inr p)"
  then show "\<exists>r. solve_model minimize uninit og v0 max_iter tol verbose print_skip = Inr r"
    using solve_model_returns by blast
next
  fix r
  assume r: "solve_model minimize uninit og v0 max_iter tol verbose print_skip = Inr r"
  show "\<exists>n st s_prev.
           1 \<le> n \<and> int n \<le> max_iter
         \<and> loop_iterates (\<lambda>v. T minimize uninit v og) (cells og) verbose print_skip (n - 1)
              (solve_init v0 tol) = Inr s_prev
         \<and> loop_iterates (\<lambda>v. T minimize uninit v og) (cells og) verbose print_skip n
              (solve_init v0 tol) = Inr st
         \<and> T minimize uninit (v_cur s_prev) og = Inr (returned r)
         \<and> sup_norm (cells og) (v_cur s_prev) (snd (returned r)) = Inr (error st)
         \<and> (error st \<le> tol \<or> int n = max_iter)
         \<and> (\<forall>k. 1 \<le> k \<and> k < n \<longrightarrow>
               (\<exists>s. loop_iterates (\<lambda>v. T minimize uninit v og) (cells og) verbose print_skip k
                      (solve_init v0 tol) = Inr s \<and> tol < error s))
         \<and> (Failed_to_converge \<in> set (stdout r) \<longleftrightarrow> int n = max_iter)
         \<and> (Converged_in (int n) \<in> set (stdout r) \<longleftrightarrow> verbose \<and> int n < max_iter)"
    by (rule solve_model_run[OF r]) blast
qed

lemma obj_og2_any:
  "\<exists>y. obj_func og2 x (bellman og2 (0, 0, Suc 0, 0)) v = Inr y"
  by (rule obj_func_in_domain[where S_y = "1 / 10000" and S_o = "1 / 10000" and I_y = "1 / 2"
        and I_o = "1 / 10000" and R = "(Fin 0, Fin 0)" and D = "(0, 0)"])
     (simp_all add: og2_def bellman_def identity_transition_def)

lemma minimize_og2_any:
  "\<exists>y. minimize_wrap minimize_at_start (obj_func og2) bds (bellman og2 (0, 0, Suc 0, 0), v)
     = Inr ((1 / 10000, 1), y)"
proof -
  obtain y where "obj_func og2 (1 / 10000, 1) (bellman og2 (0, 0, Suc 0, 0)) v = Inr y"
    using obj_og2_any by blast
  then show ?thesis
    by (simp add: minimize_wrap_def minimize_at_start_def Let_def clip_guess)
qed

lemma T_og2_total: "\<exists>p. T minimize_at_start zeros v og2 = Inr p"
proof -
  obtain y where "minimize_wrap minimize_at_start (obj_func og2) bds (bellman og2 (0, 0, Suc 0, 0), v)
     = Inr ((1 / 10000, 1), y)"
    using minimize_og2_any by blast
  then show ?thesis
    by (simp add: T_def T_run_def cells_og2 T_init_def og2_kinds T_cell_exterior T_cell_post_herd
      T_cell_interior)
qed

theorem solve_model_exit_witness:
  "(1 \<le> (1::int) \<and> cells og2 \<noteq> [] \<and> \<not> (True \<and> (5::int) = 0)
      \<and> (\<forall>v. \<exists>p. T minimize_at_start zeros v og2 = Inr p))
   \<and> (\<exists>r. solve_model minimize_at_start zeros og2 zeros 1 (1 / 1000) True 5 = Inr r
        \<and> (\<exists>n st s_prev.
           1 \<le> n \<and> int n \<le> 1
         \<and> loop_iterates (\<lambda>v. T minimize_at_start zeros v og2) (cells og2) True 5 (n - 1)
              (solve_init zeros (1 / 1000)) = Inr s_prev
         \<and> loop_iterates (\<lambda>v. T minimize_at_start zeros v og2) (cells og2) True 5 n
              (solve_init zeros (1 / 1000)) = Inr st
         \<and> T minimize_at_start zeros (v_cur s_prev) og2 = Inr (returned r)
         \<and> sup_norm (cells og2) (v_cur s_prev) (snd (returned r)) = Inr (error st)
         \<and> (error st \<le> 1 / 1000 \<or> int n = 1)))"
proof -
  have h: "1 \<le> (1::int) \<and> cells og2 \<noteq> [] \<and> \<not> (True \<and> (5::int) = 0)
      \<and> (\<forall>v. \<exists>p. T minimize_at_start zeros v og2 = Inr p)"
    using T_og2_total by (simp add: cells_og2)
  note inst = solve_model_exit[of 1 og2 True 5 minimize_at_start zeros zeros "1 / 1000"]
  from inst h obtain r where
    r: "solve_model minimize_at_start zeros og2 zeros 1 (1 / 1000) True 5 = Inr r"
    by blast
  from inst r have "\<exists>n st s_prev.
           1 \<le> n \<and> int n \<le> 1
         \<and> loop_iterates (\<lambda>v. T minimize_at_start zeros v og2) (cells og2) True 5 (n - 1)
              (solve_init zeros (1 / 1000)) = Inr s_prev
         \<and> loop_iterates (\<lambda>v. T minimize_at_start zeros v og2) (cells og2) True 5 n
              (solve_init zeros (1 / 1000)) = Inr st
         \<and> T minimize_at_start zeros (v_cur s_prev) og2 = Inr (returned r)
         \<and> sup_norm (cells og2) (v_cur s_prev) (snd (returned r)) = Inr (error st)
         \<and> (error st \<le> 1 / 1000 \<or> int n = 1)"
    by blast
  with h r show ?thesis by blast
qed

text \<open>
  The claim as first stated has the loop return a flag that tells convergence from
  exhaustion.  With a budget of one sweep, a run whose tolerance 2 is met by the sup-norm 1
  of that sweep and a run whose tolerance 0.001 is not return the same arrays and print the
  same lines, "Failed to converge!" among them.
\<close>

theorem no_convergence_flag_counterexample:
  "solve_model minimize_at_start zeros og2 zeros 1 2 True 5
     = solve_model minimize_at_start zeros og2 zeros 1 (1 / 1000) True 5
   \<and> map_sum id stdout (solve_model minimize_at_start zeros og2 zeros 1 2 True 5)
       = Inr [Error_at_iteration 0 1, Error_at_iteration 1 1, Failed_to_converge]
   \<and> (1::real) \<le> 2 \<and> \<not> (1::real) \<le> 1 / 1000"
proof -
  from solve_og2_one_sweep[of 2] obtain vg vn where
    a: "T minimize_at_start zeros zeros og2 = Inr (vg, vn)
     \<and> solve_model minimize_at_start zeros og2 zeros 1 2 True 5
       = Inr \<lparr>stdout = [Error_at_iteration 0 1, Error_at_iteration 1 1, Failed_to_converge],
              returned = (vg, vn)\<rparr>" by (elim exE)
  from solve_og2_one_sweep[of "1 / 1000"] obtain vg' vn' where
    b: "T minimize_at_start zeros zeros og2 = Inr (vg', vn')
     \<and> solve_model minimize_at_start zeros og2 zeros 1 (1 / 1000) True 5
       = Inr \<lparr>stdout = [Error_at_iteration 0 1, Error_at_iteration 1 1, Failed_to_converge],
              returned = (vg', vn')\<rparr>" by (elim exE)
  from a b have "vg' = vg" "vn' = vn" by simp_all
  with a b show ?thesis by simp
qed

subsection \<open>Configuration values are not checked\<close>

text \<open>
  C8 (as amended).  Neither the constructor nor the loop validates the configuration.
  The constructor accepts every grid size that is not negative.  A budget of zero or fewer
  iterations makes no sweep, and the final \<^verbatim>\<open>return\<close> fails on the unbound local.  An empty
  grid fails inside the loop, at the maximum of an empty array.  A negative tolerance is
  accepted and never met, so a run that returns has used the whole budget.
\<close>

theorem no_configuration_check:
  "(0 \<le> grid_size \<longrightarrow>
      (\<exists>og'. Model_init u f grid_size = Inr og'
         \<and> length (gridS og') = nat grid_size \<and> length (gridI og') = nat grid_size))
   \<and> (max_iter \<le> 0 \<longrightarrow>
        solve_model minimize uninit og v0 max_iter tol verbose print_skip = Inl UnboundLocalError)
   \<and> (gridS og = [] \<and> gridI og = [] \<and> 1 \<le> max_iter \<longrightarrow>
        solve_model minimize uninit og v0 max_iter tol verbose print_skip
          = Inl ValueError_zero_size)
   \<and> (tol < 0 \<and> solve_model minimize uninit og v0 max_iter tol verbose print_skip = Inr r \<longrightarrow>
        Failed_to_converge \<in> set (stdout r))"
  using Model_init_accepts[of grid_size u f]
    solve_model_no_sweep[of max_iter minimize uninit og v0 tol verbose print_skip]
    solve_model_empty_grid[of og max_iter minimize uninit v0 tol verbose print_skip]
    solve_model_negative_tol[of tol minimize uninit og v0 max_iter verbose print_skip r]
  by blast

lemma Model_init_notebook1: "Model_init cost dynamics 1 = Inr og_notebook1"
  by (simp add: Model_init_def linspace_def og_notebook1_def Let_def)

lemma Model_init_notebook0: "Model_init cost dynamics 0 = Inr og_notebook0"
  by (simp add: Model_init_def linspace_def og_notebook0_def Let_def)

lemma solve_og2_negative_tol:
  "map_sum id stdout (solve_model minimize_at_start zeros og2 zeros 1 (- 1) True 5)
     = Inr [Error_at_iteration 0 1, Error_at_iteration 1 1, Failed_to_converge]"
proof -
  from solve_og2_one_sweep[of "- 1"] obtain vg vn where
    a: "T minimize_at_start zeros zeros og2 = Inr (vg, vn)
     \<and> solve_model minimize_at_start zeros og2 zeros 1 (- 1) True 5
       = Inr \<lparr>stdout = [Error_at_iteration 0 1, Error_at_iteration 1 1, Failed_to_converge],
              returned = (vg, vn)\<rparr>" by (elim exE)
  then show ?thesis by simp
qed

theorem no_configuration_check_witness:
  "0 \<le> (1::int)
   \<and> (\<exists>og'. Model_init cost dynamics 1 = Inr og'
         \<and> length (gridS og') = nat 1 \<and> length (gridI og') = nat 1)
   \<and> (0::int) \<le> 0
   \<and> solve_model minimize_at_start zeros og_notebook2 zeros 0 (1 / 1000) True 5
        = Inl UnboundLocalError
   \<and> gridS og_notebook0 = [] \<and> gridI og_notebook0 = [] \<and> 1 \<le> (1::int)
   \<and> solve_model minimize_at_start zeros og_notebook0 zeros 1 (1 / 1000) True 5
        = Inl ValueError_zero_size
   \<and> (- 1 :: real) < 0
   \<and> (\<exists>r. solve_model minimize_at_start zeros og2 zeros 1 (- 1) True 5 = Inr r
         \<and> Failed_to_converge \<in> set (stdout r))"
proof -
  have a: "\<exists>og'. Model_init cost dynamics 1 = Inr og'
         \<and> length (gridS og') = nat 1 \<and> length (gridI og') = nat 1"
    using no_configuration_check[of 1 cost dynamics] by simp
  have b: "solve_model minimize_at_start zeros og_notebook2 zeros 0 (1 / 1000) True 5
        = Inl UnboundLocalError"
    using no_configuration_check[of _ _ _ 0 minimize_at_start zeros og_notebook2 zeros "1 / 1000"
        True 5] by simp
  have g: "gridS og_notebook0 = [] \<and> gridI og_notebook0 = []"
    by (simp add: og_notebook0_def)
  have c: "solve_model minimize_at_start zeros og_notebook0 zeros 1 (1 / 1000) True 5
        = Inl ValueError_zero_size"
    using no_configuration_check[of _ _ _ 1 minimize_at_start zeros og_notebook0 zeros "1 / 1000"
        True 5] g by simp
  obtain r where r: "solve_model minimize_at_start zeros og2 zeros 1 (- 1) True 5 = Inr r"
    using solve_og2_negative_tol by (cases "solve_model minimize_at_start zeros og2 zeros 1 (- 1) True 5") auto
  have "Failed_to_converge \<in> set (stdout r)"
    using no_configuration_check[of _ _ _ 1 minimize_at_start zeros og2 zeros "- 1" True 5 r] r
    by simp
  with r have d: "\<exists>r. solve_model minimize_at_start zeros og2 zeros 1 (- 1) True 5 = Inr r
         \<and> Failed_to_converge \<in> set (stdout r)" by blast
  from a b g c d show ?thesis by simp
qed

text \<open>
  The claim as first stated has every invalid configuration rejected when the model
  object is built.  Grid sizes 1 and 0 are accepted; size 0 then fails in the loop, a budget
  of 0 fails at the return, and the tolerance -1 runs to the end of the budget.
\<close>

theorem invalid_configuration_counterexample:
  "Model_init cost dynamics 1 = Inr og_notebook1
   \<and> Model_init cost dynamics 0 = Inr og_notebook0
   \<and> solve_model minimize_at_start zeros og_notebook0 zeros 1 (1 / 1000) True 5
        = Inl ValueError_zero_size
   \<and> solve_model minimize_at_start zeros og_notebook2 zeros 0 (1 / 1000) True 5
        = Inl UnboundLocalError
   \<and> map_sum id stdout (solve_model minimize_at_start zeros og2 zeros 1 (- 1) True 5)
        = Inr [Error_at_iteration 0 1, Error_at_iteration 1 1, Failed_to_converge]"
  using Model_init_notebook1 Model_init_notebook0 solve_og2_negative_tol
    solve_model_empty_grid[of og_notebook0 1 minimize_at_start zeros zeros "1 / 1000" True 5]
    solve_model_no_sweep[of 0 minimize_at_start zeros og_notebook2 zeros "1 / 1000" True 5]
  by (simp add: og_notebook0_def)

end
